theory Spec2Isabelle
  imports Main "HOL-Library.Sublist"
begin

section \<open>Strings\<close>

text \<open>
  A string is the list of its code units, taken as 8-bit characters. White space is what
  \<^verbatim>\<open>\s\<close> and \<^verbatim>\<open>String.prototype.trim\<close> recognise in that range.
\<close>

definition is_space :: "char \<Rightarrow> bool" where
  "is_space c = (c \<in> set [CHR 0x09, CHR 0x0A, CHR 0x0B, CHR 0x0C, CHR 0x0D, CHR '' '', CHR 0xA0])"

definition trim :: "string \<Rightarrow> string" where
  "trim s = rev (dropWhile is_space (rev (dropWhile is_space s)))"

text \<open>\<^verbatim>\<open>s.slice(a, b)\<close> for \<open>0 \<le> a\<close> and \<open>0 \<le> b\<close>.\<close>

definition slice :: "string \<Rightarrow> nat \<Rightarrow> nat \<Rightarrow> string" where
  "slice s a b = take (b - a) (drop a s)"

definition digit_char :: "nat \<Rightarrow> char" where
  "digit_char k = char_of (48 + k)"

text \<open>The decimal numeral of a number, as a template literal prints it.\<close>

function string_of_nat :: "nat \<Rightarrow> string" where
  "string_of_nat k =
     (if k < 10 then [digit_char k] else string_of_nat (k div 10) @ [digit_char (k mod 10)])"
  by pat_completeness auto
termination
  by (relation "measure id") auto

declare string_of_nat.simps [simp del]

text \<open>\<^verbatim>\<open>/^(?:\s*[+~]|:)/\<close> and \<^verbatim>\<open>/^\s*>/\<close>.\<close>

definition reSpathNth :: "string \<Rightarrow> bool" where
  "reSpathNth s =
     (case dropWhile is_space s of
        c # _ \<Rightarrow> c = CHR ''+'' \<or> c = CHR ''~'' \<or> (case s of x # _ \<Rightarrow> x = CHR '':'' | [] \<Rightarrow> False)
      | [] \<Rightarrow> False)"

definition reNeedScope :: "string \<Rightarrow> bool" where
  "reNeedScope s = (case dropWhile is_space s of c # _ \<Rightarrow> c = CHR ''>'' | [] \<Rightarrow> False)"

section \<open>Compiled selector descriptors\<close>

text \<open>
  The compiler's output, \<^verbatim>\<open>{ selector, tasks, action, raw }\<close>, as the JSON value it is.
  A task is the pair \<^verbatim>\<open>[ operator, args ]\<close>, and \<^verbatim>\<open>args\<close> is what the operator's
  validator returned: a nested descriptor, a string, an array of strings (a regular
  expression with flags is the array \<^verbatim>\<open>[ source, flags ]\<close>, an attribute list is an
  array of names), the object \<^verbatim>\<open>{ name, value }\<close> of a CSS declaration, or a number.
  The field \<^verbatim>\<open>tasks\<close> is only set when the list is not empty, so the empty list
  stands for an absent field; \<^verbatim>\<open>action\<close> and \<^verbatim>\<open>raw\<close> are optional.
\<close>

datatype jsval = Str string | Arr "string list"

datatype descriptor =
    Descriptor (selector: string) (tasks: "task list") (action: "string option")
      (raw_field: "string option")
and task = Task (operator: string) (args: arg)
and arg =
    ArgSelector descriptor
  | ArgValue jsval
  | ArgDeclaration string jsval
  | ArgNumber nat

section \<open>Selector compiler\<close>

subsection \<open>The host of the compiler\<close>

text \<open>
  The compiler probes the host's CSS parser through a scratch style sheet, its regular
  expression engine through \<^verbatim>\<open>new RegExp\<close> and its XPath parser through
  \<^verbatim>\<open>document.createExpression\<close>. \<open>insertRule\<close> gives what
  \<^verbatim>\<open>stylesheet.insertRule(text)\<close> leaves at index 0 of the sheet, or \<open>None\<close> when it
  throws: a rule without a \<^verbatim>\<open>style\<close>, or a style rule with the length of its
  \<^verbatim>\<open>style\<close>, the value of its \<^verbatim>\<open>color\<close> property and its \<^verbatim>\<open>cssText\<close>.
\<close>

datatype inserted_rule = NoStyle | StyleRule nat string string

record host =
  has_stylesheet :: bool
  insertRule :: "string \<Rightarrow> inserted_rule option"
  new_RegExp :: "string \<Rightarrow> bool"
  createExpression :: "string \<Rightarrow> bool"

text \<open>
  The state the compiler keeps between calls: the map \<^verbatim>\<open>regexToRawValue\<close>, and the
  number of rules in the scratch style sheet (a probe that returns early leaves its rule
  behind).
\<close>

record cstate =
  regexToRawValue :: "string \<rightharpoonup> string"
  cssRules :: nat

subsection \<open>Regular expressions of the compiler\<close>

definition is_digit :: "char \<Rightarrow> bool" where
  "is_digit c = (c \<in> set ''0123456789'')"

definition is_alpha :: "char \<Rightarrow> bool" where
  "is_alpha c = (c \<in> set ''ABCDEFGHIJKLMNOPQRSTUVWXYZabcdefghijklmnopqrstuvwxyz'')"

definition is_word :: "char \<Rightarrow> bool" where
  "is_word c = (is_alpha c \<or> is_digit c \<or> c = CHR ''_'')"

definition line_terminator :: "char \<Rightarrow> bool" where
  "line_terminator c = (c = CHR 0x0A \<or> c = CHR 0x0D)"

text \<open>\<^verbatim>\<open>/^[#.][A-Za-z_][\w-]*$/\<close>\<close>

definition reSimpleSelector :: "string \<Rightarrow> bool" where
  "reSimpleSelector s =
     (case s of
        c # d # r \<Rightarrow>
          (c = CHR ''#'' \<or> c = CHR ''.'') \<and> (is_alpha d \<or> d = CHR ''_'')
          \<and> list_all (\<lambda>x. is_word x \<or> x = CHR ''-'') r
      | _ \<Rightarrow> False)"

text \<open>
  \<^verbatim>\<open>/^\/(.+)\/([imu]+)?$/\<close>: the greedy \<^verbatim>\<open>.+\<close> runs to the last slash, what follows
  it are the flags. The result is the pair of the groups 1 and 2.
\<close>

definition reParseRegexLiteral :: "string \<Rightarrow> (string \<times> string option) option" where
  "reParseRegexLiteral s =
     (case s of
        [] \<Rightarrow> None
      | c # rest \<Rightarrow>
          if c \<noteq> CHR ''/'' then None
          else (case dropWhile (\<lambda>x. x \<noteq> CHR ''/'') (rev rest) of
                  [] \<Rightarrow> None
                | _ # body_rev \<Rightarrow>
                    (let body = rev body_rev;
                         flags = rev (takeWhile (\<lambda>x. x \<noteq> CHR ''/'') (rev rest))
                     in if body \<noteq> [] \<and> list_all (\<lambda>x. \<not> line_terminator x) body
                           \<and> list_all (\<lambda>x. x \<in> set ''imu'') flags
                        then Some (body, if flags = [] then None else Some flags)
                        else None)))"

text \<open>\<^verbatim>\<open>s.replace(/\\([()])/g, '$1')\<close>\<close>

fun reEatBackslashes :: "string \<Rightarrow> string" where
  "reEatBackslashes (c # d # r) =
     (if c = CHR 0x5C \<and> (d = CHR ''('' \<or> d = CHR '')'') then d # reEatBackslashes r
      else c # reEatBackslashes (d # r))"
| "reEatBackslashes s = s"

text \<open>\<^verbatim>\<open>s.replace(/[.*+?^${}()|[\]\\]/g, '\\$&')\<close>\<close>

definition reEscapeRegex :: "string \<Rightarrow> string" where
  "reEscapeRegex s =
     concat (map (\<lambda>c. if c \<in> set (''.*+?^${}()|[]'' @ [CHR 0x5C]) then [CHR 0x5C, c] else [c]) s)"

text \<open>\<^verbatim>\<open>/[+>~\s]\s*$/\<close> and \<^verbatim>\<open>/^\s*[+~]/\<close>\<close>

definition reIsDanglingSelector :: "string \<Rightarrow> bool" where
  "reIsDanglingSelector s =
     (s \<noteq> [] \<and> (last s = CHR ''+'' \<or> last s = CHR ''>'' \<or> last s = CHR ''~'' \<or> is_space (last s)))"

definition reIsSiblingSelector :: "string \<Rightarrow> bool" where
  "reIsSiblingSelector s =
     (case dropWhile is_space s of c # _ \<Rightarrow> c = CHR ''+'' \<or> c = CHR ''~'' | [] \<Rightarrow> False)"

text \<open>
  \<^verbatim>\<open>reProceduralOperator.exec(s)\<close>, the match \<^verbatim>\<open>match[0]\<close>: one of the operator names
  at the start of \<open>s\<close>, followed by an opening parenthesis. No name holds a
  parenthesis, so the name is what stands before the first one.
\<close>

definition operator_names :: "string list" where
  "operator_names =
     [''-abp-contains'', ''-abp-has'', ''contains'', ''has'', ''has-text'', ''if'', ''if-not'',
      ''matches-css'', ''matches-css-after'', ''matches-css-before'', ''min-text-length'',
      ''not'', ''nth-ancestor'', ''remove'', ''style'', ''upward'', ''watch-attr'',
      ''watch-attrs'', ''xpath'']"

definition reProceduralOperator :: "string \<Rightarrow> string option" where
  "reProceduralOperator s =
     (let name = takeWhile (\<lambda>c. c \<noteq> CHR ''('') s
      in if name \<in> set operator_names \<and> length name < length s then Some (name @ ''('')
         else None)"

text \<open>\<^verbatim>\<open>/image-set\(|url\(|\/\s*\/|\\|\/\*/i\<close>\<close>

definition lower :: "char \<Rightarrow> char" where
  "lower c =
     (case map_of (zip ''ABCDEFGHIJKLMNOPQRSTUVWXYZ'' ''abcdefghijklmnopqrstuvwxyz'') c of
        Some l \<Rightarrow> l
      | None \<Rightarrow> c)"

fun str_includes :: "string \<Rightarrow> string \<Rightarrow> bool" where
  "str_includes s [] = (s = [])"
| "str_includes s (c # cs) = (prefix s (c # cs) \<or> str_includes s cs)"

fun slash_space_slash :: "string \<Rightarrow> bool" where
  "slash_space_slash [] = False"
| "slash_space_slash (c # cs) =
     ((c = CHR ''/'' \<and> (case dropWhile is_space cs of d # _ \<Rightarrow> d = CHR ''/'' | [] \<Rightarrow> False))
      \<or> slash_space_slash cs)"

definition reForbiddenStyle :: "string \<Rightarrow> bool" where
  "reForbiddenStyle s =
     (str_includes ''image-set('' (map lower s) \<or> str_includes ''url('' (map lower s)
      \<or> slash_space_slash s \<or> CHR 0x5C \<in> set s \<or> str_includes ''/*'' s)"

subsection \<open>Probes and argument validators\<close>

definition sheetSelectable :: "host \<Rightarrow> cstate \<Rightarrow> string \<Rightarrow> bool \<times> cstate" where
  "sheetSelectable h cs s =
     (if reSimpleSelector s then (True, cs)
      else if \<not> has_stylesheet h then (True, cs)
      else (case insertRule h (s @ ''{color:red}'') of
              None \<Rightarrow> (False, cs)
            | Some r \<Rightarrow>
                (let cs1 = cs\<lparr>cssRules := cssRules cs + 1\<rparr>
                 in if cssRules cs1 \<noteq> 1 then (False, cs1)
                    else (case r of
                            NoStyle \<Rightarrow> (False, cs1)
                          | StyleRule len col txt \<Rightarrow>
                              if len \<noteq> 1 then (False, cs1)
                              else if col \<noteq> ''red'' then (False, cs1)
                              else (True, cs1\<lparr>cssRules := cssRules cs1 - 1\<rparr>)))))"

text \<open>\<^verbatim>\<open>isBadRegex(s)\<close> is the negation of \<open>new_RegExp h s\<close>.\<close>

definition regex_details :: "string \<Rightarrow> string option \<Rightarrow> jsval" where
  "regex_details body flags = (case flags of None \<Rightarrow> Str body | Some f \<Rightarrow> Arr [body, f])"

definition compileText :: "host \<Rightarrow> cstate \<Rightarrow> string \<Rightarrow> arg option \<times> cstate" where
  "compileText h cs s =
     (case reParseRegexLiteral s of
        Some (body, flags) \<Rightarrow>
          if \<not> new_RegExp h body then (None, cs)
          else (Some (ArgValue (regex_details body flags)), cs)
      | None \<Rightarrow>
          (let regexDetails = reEscapeRegex (reEatBackslashes s)
           in (Some (ArgValue (Str regexDetails)),
               cs\<lparr>regexToRawValue := (regexToRawValue cs)(regexDetails \<mapsto> s)\<rparr>)))"

definition compileCSSDeclaration :: "host \<Rightarrow> cstate \<Rightarrow> string \<Rightarrow> arg option \<times> cstate" where
  "compileCSSDeclaration h cs s =
     (if CHR '':'' \<notin> set s then (None, cs)
      else
        (let pos = length (takeWhile (\<lambda>c. c \<noteq> CHR '':'') s);
             name = trim (slice s 0 pos);
             val = trim (drop (pos + 1) s)
         in case reParseRegexLiteral val of
              Some (body, flags) \<Rightarrow>
                if \<not> new_RegExp h body then (None, cs)
                else (Some (ArgDeclaration name (regex_details body flags)), cs)
            | None \<Rightarrow>
                (let regexDetails = ''^'' @ reEscapeRegex val @ ''$''
                 in (Some (ArgDeclaration name (Str regexDetails)),
                     cs\<lparr>regexToRawValue := (regexToRawValue cs)(regexDetails \<mapsto> val)\<rparr>))))"

text \<open>\<^verbatim>\<open>parseInt(s, 10)\<close> on a string of digits.\<close>

definition parseInt :: "string \<Rightarrow> nat" where
  "parseInt s = foldl (\<lambda>a c. 10 * a + (of_char c - 48)) 0 s"

definition compileInteger :: "string \<Rightarrow> nat \<Rightarrow> nat \<Rightarrow> nat option" where
  "compileInteger s lo hi =
     (if \<not> (s \<noteq> [] \<and> list_all is_digit s) then None
      else (let k = parseInt s in if k < lo \<or> k \<ge> hi then None else Some k))"

definition compileUpwardArgument :: "host \<Rightarrow> cstate \<Rightarrow> string \<Rightarrow> arg option \<times> cstate" where
  "compileUpwardArgument h cs s =
     (case compileInteger s 1 256 of
        Some k \<Rightarrow> (Some (ArgNumber k), cs)
      | None \<Rightarrow>
          (case sheetSelectable h cs s of
             (b, cs') \<Rightarrow> (if b then Some (ArgValue (Str s)) else None, cs')))"

definition compileRemoveSelector :: "string \<Rightarrow> arg option" where
  "compileRemoveSelector s = (if s = [] then Some (ArgValue (Str s)) else None)"

definition compileSpathExpression :: "host \<Rightarrow> cstate \<Rightarrow> string \<Rightarrow> arg option \<times> cstate" where
  "compileSpathExpression h cs s =
     (case sheetSelectable h cs (CHR ''*'' # s) of
        (b, cs') \<Rightarrow> (if b then Some (ArgValue (Str s)) else None, cs'))"

text \<open>
  \<^verbatim>\<open>compileStyleProperties\<close>. The rule it inserts is deleted whenever the sheet is not
  empty afterwards; reading the \<^verbatim>\<open>style\<close> of a rule that has none throws inside the
  \<^verbatim>\<open>try\<close>, before the deletion.
\<close>

definition compileStyleProperties :: "host \<Rightarrow> cstate \<Rightarrow> string \<Rightarrow> arg option \<times> cstate" where
  "compileStyleProperties h cs s =
     (if reForbiddenStyle s then (None, cs)
      else if \<not> has_stylesheet h then (Some (ArgValue (Str s)), cs)
      else (case insertRule h (''a{'' @ s @ ''}'') of
              None \<Rightarrow> (None, cs)
            | Some NoStyle \<Rightarrow> (None, cs\<lparr>cssRules := cssRules cs + 1\<rparr>)
            | Some (StyleRule len col txt) \<Rightarrow>
                (if txt \<noteq> [] then Some (ArgValue (Str s)) else None, cs)))"

text \<open>
  \<^verbatim>\<open>s.split('\s*,\s*')\<close>: the separator is a string literal, in which \<^verbatim>\<open>\s\<close> is the
  letter \<^verbatim>\<open>s\<close>; the string is split at the occurrences of the five characters
  \<^verbatim>\<open>s*,s*\<close>.
\<close>

function split_on :: "string \<Rightarrow> string \<Rightarrow> string \<Rightarrow> string list" where
  "split_on sep cur [] = [cur]"
| "split_on sep cur (c # cs) =
     (if sep \<noteq> [] \<and> prefix sep (c # cs)
      then cur # split_on sep [] (drop (length sep) (c # cs))
      else split_on sep (cur @ [c]) cs)"
  by pat_completeness auto
termination
  by (relation "measure (\<lambda>(sep, cur, s). length s)") auto

definition split :: "string \<Rightarrow> string \<Rightarrow> string list" where
  "split s sep = split_on sep [] s"

definition compileAttrList :: "string \<Rightarrow> string list" where
  "compileAttrList s = filter (\<lambda>attr. attr \<noteq> []) (split s ''s*,s*'')"

definition compileXpathExpression :: "host \<Rightarrow> string \<Rightarrow> arg option" where
  "compileXpathExpression h s = (if createExpression h s then Some (ArgValue (Str s)) else None)"

text \<open>\<^verbatim>\<open>normalizedOperators.get(operator) || operator\<close>\<close>

definition normalizedOperators :: "string \<Rightarrow> string" where
  "normalizedOperators opr =
     (case map_of
        [('':-abp-contains'', '':has-text''), ('':-abp-has'', '':has''),
         ('':contains'', '':has-text''), ('':nth-ancestor'', '':upward''),
         ('':watch-attrs'', '':watch-attr'')] opr of
        Some n \<Rightarrow> n
      | None \<Rightarrow> opr)"

definition actionOperators :: "string list" where
  "actionOperators = ['':remove'', '':style'']"

text \<open>
  \<^verbatim>\<open>compileArgument.get(operator)(s)\<close> for the validators that do not call the compiler
  again. The operators that take a nested selector are dispatched inside the compiler's
  loop below.
\<close>

definition compileArgument :: "host \<Rightarrow> cstate \<Rightarrow> string \<Rightarrow> string \<Rightarrow> arg option \<times> cstate" where
  "compileArgument h cs opr s =
     (if opr = '':has-text'' then compileText h cs s
      else if opr = '':matches-css'' \<or> opr = '':matches-css-after''
              \<or> opr = '':matches-css-before'' then compileCSSDeclaration h cs s
      else if opr = '':min-text-length''
      then (map_option ArgNumber (compileInteger s 0 0x7FFFFFFF), cs)
      else if opr = '':remove'' then (compileRemoveSelector s, cs)
      else if opr = '':spath'' then compileSpathExpression h cs s
      else if opr = '':style'' then compileStyleProperties h cs s
      else if opr = '':upward'' then compileUpwardArgument h cs s
      else if opr = '':watch-attr'' then (Some (ArgValue (Arr (compileAttrList s))), cs)
      else if opr = '':xpath'' then (compileXpathExpression h s, cs)
      else (None, cs))"

subsection \<open>The scan for operators\<close>

text \<open>
  \<^verbatim>\<open>while ( i < n ) { c = raw.charCodeAt(i++); if ( c === 0x3A ) { match = ...; if ( match !== null ) break; } }\<close>:
  the index after the loop, and the match if the loop was left by \<^verbatim>\<open>break\<close>.
\<close>

function advance :: "string \<Rightarrow> nat \<Rightarrow> nat \<times> string option" where
  "advance raw i =
     (if i < length raw then
        (if raw ! i = CHR '':'' then
           (case reProceduralOperator (drop (i + 1) raw) of
              Some m \<Rightarrow> (i + 1, Some m)
            | None \<Rightarrow> advance raw (i + 1))
         else advance raw (i + 1))
      else (i, None))"
  by pat_completeness auto
termination
  by (relation "measure (\<lambda>(raw, i). length raw - i)") auto

declare advance.simps [simp del]

text \<open>
  The search for the end of the argument, from the index after the operator's
  parenthesis: the index, the balance counter \<^verbatim>\<open>pcnt\<close> and the last character read
  \<^verbatim>\<open>c\<close>, after the loop. A backslash skips the character after it.
\<close>

function scan_argument :: "string \<Rightarrow> nat \<Rightarrow> int \<Rightarrow> char \<Rightarrow> nat \<times> int \<times> char" where
  "scan_argument raw i pcnt c =
     (if i < length raw then
        (if raw ! i = CHR 0x5C
         then scan_argument raw (if i + 1 < length raw then i + 2 else i + 1) pcnt (raw ! i)
         else if raw ! i = CHR ''(''
         then scan_argument raw (i + 1) (pcnt + 1) (raw ! i)
         else if raw ! i = CHR '')''
         then (if pcnt - 1 = 0 then (i + 1, pcnt - 1, raw ! i)
               else scan_argument raw (i + 1) (pcnt - 1) (raw ! i))
         else scan_argument raw (i + 1) pcnt (raw ! i))
      else (i, pcnt, c))"
  by pat_completeness auto
termination
  by (relation "measure (\<lambda>(raw, i, pcnt, c). length raw - i)") auto

declare scan_argument.simps [simp del]

text \<open>
  The head of one turn of the compiler's loop, from the index \<open>i0\<close>: \<open>None\<close> when
  the loop is left because no further operator is found (\<^verbatim>\<open>i === n\<close>), otherwise
  \<^verbatim>\<open>opNameBeg\<close>, \<^verbatim>\<open>opNameEnd\<close>, and \<^verbatim>\<open>i\<close>, \<^verbatim>\<open>pcnt\<close>, \<^verbatim>\<open>c\<close> after the search for
  the end of the argument.
\<close>

definition locate :: "string \<Rightarrow> nat \<Rightarrow> (nat \<times> nat \<times> nat \<times> int \<times> char) option" where
  "locate raw i0 =
     (case advance raw i0 of
        (i1, None) \<Rightarrow> None
      | (i1, Some m) \<Rightarrow>
          if i1 = length raw then None
          else (case scan_argument raw (i1 + length m) 1 (CHR '':'') of
                  (i3, pcnt, c) \<Rightarrow> Some (i1 - 1, i1 + length m - 1, i3, pcnt, c)))"

subsection \<open>The compiler\<close>

text \<open>The variables of \<^verbatim>\<open>compile\<close>, with the compiler's state.\<close>

record loop_state =
  ls_cstate :: cstate
  ls_tasks :: "task list"
  ls_prefix :: string
  ls_i :: nat
  ls_opPrefixBeg :: nat
  ls_action :: "string option"

text \<open>A step either returns \<^verbatim>\<open>undefined\<close> from \<^verbatim>\<open>compile\<close> or goes on.\<close>

datatype 'a step = Return cstate | Continue 'a

text \<open>\<^verbatim>\<open>compileConditionalSelector\<close> prepends \<^verbatim>\<open>:scope\<close> where needed.\<close>

definition scoped :: "string \<Rightarrow> string" where
  "scoped s = (if reNeedScope s then '':scope '' @ s else s)"

definition is_conditional :: "string \<Rightarrow> bool" where
  "is_conditional opr = (opr = '':has'' \<or> opr = '':if'' \<or> opr = '':if-not'')"

text \<open>
  The part of the loop body after the argument has been validated: the prefix or the
  \<^verbatim>\<open>:spath\<close> task for the text before the operator, the task itself, the action.
\<close>

definition record_task ::
  "host \<Rightarrow> bool \<Rightarrow> string \<Rightarrow> loop_state \<Rightarrow> nat \<Rightarrow> string \<Rightarrow> arg \<Rightarrow> nat \<Rightarrow> loop_state step"
where
  "record_task h root raw st opNameBeg opr a i =
     (case (if ls_opPrefixBeg st = 0
            then Continue (st\<lparr>ls_prefix := slice raw 0 opNameBeg\<rparr>)
            else if opNameBeg \<noteq> ls_opPrefixBeg st then
              (if ls_action st \<noteq> None then Return (ls_cstate st)
               else (case compileSpathExpression h (ls_cstate st)
                            (slice raw (ls_opPrefixBeg st) opNameBeg) of
                       (None, cs) \<Rightarrow> Return cs
                     | (Some spath, cs) \<Rightarrow>
                         Continue (st\<lparr>ls_cstate := cs,
                                      ls_tasks := ls_tasks st @ [Task '':spath'' spath]\<rparr>)))
            else Continue st) of
        Return cs \<Rightarrow> Return cs
      | Continue st1 \<Rightarrow>
          if ls_action st1 \<noteq> None then Return (ls_cstate st1)
          else if opr \<in> set actionOperators then
            (if \<not> root then Return (ls_cstate st1)
             else Continue (st1\<lparr>ls_tasks := ls_tasks st1 @ [Task opr a],
                                ls_action := Some (drop 1 opr),
                                ls_opPrefixBeg := i, ls_i := i\<rparr>))
          else Continue (st1\<lparr>ls_tasks := ls_tasks st1 @ [Task opr a],
                             ls_opPrefixBeg := i, ls_i := i\<rparr>))"

text \<open>
  The end of \<^verbatim>\<open>compile\<close>, after the loop: the check of the prefix and the conversion of
  a sibling-selector prefix into a \<^verbatim>\<open>:spath\<close> task.
\<close>

definition finish_prefix ::
  "host \<Rightarrow> bool \<Rightarrow> cstate \<Rightarrow> task list \<Rightarrow> string \<Rightarrow> string option \<Rightarrow> descriptor option \<times> cstate"
where
  "finish_prefix h root cs tks pre act =
     (if pre \<noteq> [] then
        (let pre1 = (if reIsDanglingSelector pre then pre @ ''*'' else pre)
         in case sheetSelectable h cs pre1 of
              (True, cs1) \<Rightarrow> (Some (Descriptor pre1 tks act None), cs1)
            | (False, cs1) \<Rightarrow>
                if root then (None, cs1)
                else if \<not> reIsSiblingSelector pre1 then (None, cs1)
                else (case compileSpathExpression h cs1 pre1 of
                        (None, cs2) \<Rightarrow> (None, cs2)
                      | (Some sp, cs2) \<Rightarrow>
                          (Some (Descriptor [] (Task '':spath'' (ArgValue (Str pre1)) # tks) act None),
                           cs2)))
      else (Some (Descriptor pre tks act None), cs))"

definition finish :: "host \<Rightarrow> bool \<Rightarrow> string \<Rightarrow> loop_state \<Rightarrow> descriptor option \<times> cstate" where
  "finish h root raw st =
     (if ls_tasks st = [] then
        (let pre = (if ls_action st = None then raw else ls_prefix st)
         in case (if root then sheetSelectable h (ls_cstate st) pre else (False, ls_cstate st)) of
              (b, cs1) \<Rightarrow>
                if root \<and> b \<and> ls_action st = None
                then (Some (Descriptor pre [] None None), cs1)
                else if root \<and> b \<and> take 1 (the (ls_action st)) = '':style''
                then (Some (Descriptor pre [] (ls_action st) None), cs1)
                else finish_prefix h root cs1 (ls_tasks st) pre (ls_action st))
      else if ls_opPrefixBeg st < length raw then
        (if ls_action st \<noteq> None then (None, ls_cstate st)
         else (case compileSpathExpression h (ls_cstate st)
                      (slice raw (ls_opPrefixBeg st) (length raw)) of
                 (None, cs1) \<Rightarrow> (None, cs1)
               | (Some spath, cs1) \<Rightarrow>
                   finish_prefix h root cs1 (ls_tasks st @ [Task '':spath'' spath])
                     (ls_prefix st) (ls_action st)))
      else finish_prefix h root (ls_cstate st) (ls_tasks st) (ls_prefix st) (ls_action st))"

lemma advance_bounds:
  "advance raw i = (i1, Some m) \<Longrightarrow>
   i < i1 \<and> i1 \<le> length raw \<and> reProceduralOperator (drop i1 raw) = Some m"
proof (induction raw i rule: advance.induct)
  case (1 raw i)
  show ?case
  proof (cases "i < length raw")
    case False
    with "1.prems" show ?thesis by (simp add: advance.simps [of raw i])
  next
    case lt: True
    show ?thesis
    proof (cases "raw ! i = CHR '':''")
      case colon: True
      show ?thesis
      proof (cases "reProceduralOperator (drop (i + 1) raw)")
        case None
        with lt colon "1.prems" have "advance raw (i + 1) = (i1, Some m)"
          by (simp add: advance.simps [of raw i])
        from "1.IH"(1) [OF lt colon None this] show ?thesis by simp
      next
        case (Some m')
        with lt colon "1.prems" have "i1 = i + 1" "m' = m"
          by (simp_all add: advance.simps [of raw i])
        with Some lt show ?thesis by simp
      qed
    next
      case False
      with lt "1.prems" have "advance raw (i + 1) = (i1, Some m)"
        by (simp add: advance.simps [of raw i])
      from "1.IH"(2) [OF lt False this] show ?thesis by simp
    qed
  qed
qed

lemma scan_argument_bounds:
  "scan_argument raw i pcnt c = (i3, pcnt', c') \<Longrightarrow> i \<le> i3"
proof (induction raw i pcnt c rule: scan_argument.induct)
  case (1 raw i pcnt c)
  show ?case
  proof (cases "i < length raw")
    case False
    with "1.prems" show ?thesis by (simp add: scan_argument.simps [of raw i])
  next
    case lt: True
    show ?thesis
    proof (cases "raw ! i = CHR 0x5C")
      case True
      with lt "1.prems" have
        "scan_argument raw (if i + 1 < length raw then i + 2 else i + 1) pcnt (raw ! i)
           = (i3, pcnt', c')"
        by (simp add: scan_argument.simps [of raw i])
      from "1.IH"(1) [OF lt True this] show ?thesis by (simp split: if_splits)
    next
      case nb: False
      show ?thesis
      proof (cases "raw ! i = CHR ''(''")
        case True
        with lt nb "1.prems" have "scan_argument raw (i + 1) (pcnt + 1) (raw ! i) = (i3, pcnt', c')"
          by (simp add: scan_argument.simps [of raw i])
        from "1.IH"(2) [OF lt nb True this] show ?thesis by simp
      next
        case no: False
        show ?thesis
        proof (cases "raw ! i = CHR '')''")
          case close: True
          show ?thesis
          proof (cases "pcnt - 1 = 0")
            case True
            with lt nb no close "1.prems" have "i3 = i + 1"
              by (simp add: scan_argument.simps [of raw i])
            then show ?thesis by simp
          next
            case False
            with lt nb no close "1.prems" have
              "scan_argument raw (i + 1) (pcnt - 1) (raw ! i) = (i3, pcnt', c')"
              by (simp add: scan_argument.simps [of raw i])
            from "1.IH"(3) [OF lt nb no close False this] show ?thesis by simp
          qed
        next
          case False
          with lt nb no "1.prems" have "scan_argument raw (i + 1) pcnt (raw ! i) = (i3, pcnt', c')"
            by (simp add: scan_argument.simps [of raw i])
          from "1.IH"(4) [OF lt nb no False this] show ?thesis by simp
        qed
      qed
    qed
  qed
qed

lemma reProceduralOperator_paren:
  assumes "reProceduralOperator s = Some m"
  shows "\<exists>k. length m = Suc k \<and> k < length s \<and> s ! k = CHR ''(''"
proof -
  define name where "name = takeWhile (\<lambda>c. c \<noteq> CHR ''('') s"
  from assms have m: "m = name @ ''(''" and len: "length name < length s"
    by (auto simp: reProceduralOperator_def Let_def name_def split: if_splits)
  from len have "\<not> (s ! length name \<noteq> CHR ''('')"
    unfolding name_def by (rule nth_length_takeWhile)
  with m len show ?thesis by simp
qed

lemma locate_bounds:
  assumes "locate raw i0 = Some (opNameBeg, opNameEnd, i, pcnt, c)"
  shows "i0 < i \<and> i0 < length raw \<and> opNameEnd < length raw \<and> raw ! opNameEnd = CHR ''(''
         \<and> opNameEnd < i \<and> opNameBeg < opNameEnd"
proof -
  from assms obtain i1 m where
    adv: "advance raw i0 = (i1, Some m)" and
    sc: "scan_argument raw (i1 + length m) 1 (CHR '':'') = (i, pcnt, c)" and
    eqs: "opNameBeg = i1 - 1" "opNameEnd = i1 + length m - 1"
    by (auto simp: locate_def split: prod.splits option.splits if_splits)
  from advance_bounds [OF adv] have
    b: "i0 < i1" "i1 \<le> length raw" and re: "reProceduralOperator (drop i1 raw) = Some m"
    by simp_all
  from reProceduralOperator_paren [OF re] obtain k where
    k: "length m = Suc k" "k < length (drop i1 raw)" "drop i1 raw ! k = CHR ''(''"
    by blast
  from k(2) have le: "i1 + k < length raw" by simp
  from k(3) b(2) have paren: "raw ! (i1 + k) = CHR ''(''" by simp
  from eqs k(1) have e: "opNameEnd = i1 + k" by simp
  from scan_argument_bounds [OF sc] k(1) have "i1 + k < i" by simp
  with b le e paren eqs(1) show ?thesis by auto
qed
lemma count_scoped:
  "count_list (scoped s) (CHR ''('') = count_list s (CHR ''('')"
  by (simp add: scoped_def)

lemma count_list_take_le: "count_list (take k xs) x \<le> count_list xs x"
proof -
  have "count_list xs x = count_list (take k xs @ drop k xs) x" by simp
  also have "\<dots> = count_list (take k xs) x + count_list (drop k xs) x"
    by (simp only: count_list_append)
  finally show ?thesis by simp
qed

lemma count_argument:
  assumes "opNameEnd < length raw" "raw ! opNameEnd = CHR ''(''"
  shows "count_list (slice raw (opNameEnd + 1) j) (CHR ''('') < count_list raw (CHR ''('')"
proof -
  have "raw = take opNameEnd raw @ raw ! opNameEnd # drop (Suc opNameEnd) raw"
    using assms(1) by (simp add: id_take_nth_drop [symmetric])
  then have "count_list raw (CHR ''('') =
      count_list (take opNameEnd raw) (CHR ''('') + 1 + count_list (drop (Suc opNameEnd) raw) (CHR ''('')"
    using assms(2) by (metis (no_types) count_list.simps(2) count_list_append add.assoc add.commute)
  moreover have "count_list (slice raw (opNameEnd + 1) j) (CHR ''('')
      \<le> count_list (drop (Suc opNameEnd) raw) (CHR ''('')"
    by (simp add: slice_def count_list_take_le)
  ultimately show ?thesis by simp
qed

lemma record_task_i:
  "record_task h root raw st opNameBeg opr a i = Continue st' \<Longrightarrow> ls_i st' = i"
  by (auto simp: record_task_def split: if_splits prod.splits option.splits step.splits)

text \<open>
  \<^verbatim>\<open>compile(raw, root)\<close> and its loop \<^verbatim>\<open>for (;;)\<close>. The validators of \<^verbatim>\<open>:has\<close>,
  \<^verbatim>\<open>:if\<close>, \<^verbatim>\<open>:if-not\<close> (\<^verbatim>\<open>compileConditionalSelector\<close>) and of \<^verbatim>\<open>:not\<close>
  (\<^verbatim>\<open>compileNotSelector\<close>) call \<^verbatim>\<open>compile\<close> on the argument; the others are in
  \<open>compileArgument\<close>. The result is the descriptor, or \<open>None\<close> for \<^verbatim>\<open>undefined\<close>,
  with the state the call leaves.
\<close>

function compile :: "host \<Rightarrow> cstate \<Rightarrow> string \<Rightarrow> bool \<Rightarrow> descriptor option \<times> cstate"
  and compile_loop :: "host \<Rightarrow> bool \<Rightarrow> string \<Rightarrow> loop_state \<Rightarrow> loop_state step"
where
  "compile h cs raw root =
     (if raw = [] then (None, cs)
      else (case compile_loop h root raw
                   \<lparr>ls_cstate = cs, ls_tasks = [], ls_prefix = [], ls_i = 0,
                    ls_opPrefixBeg = 0, ls_action = None\<rparr> of
              Return cs' \<Rightarrow> (None, cs')
            | Continue st \<Rightarrow> finish h root raw st))"
| "compile_loop h root raw st =
     (case locate raw (ls_i st) of
        None \<Rightarrow> Continue (st\<lparr>ls_i := length raw\<rparr>)
      | Some (opNameBeg, opNameEnd, i, pcnt, c) \<Rightarrow>
          if pcnt \<noteq> 0 \<and> c \<noteq> CHR '')'' then Return (ls_cstate st)
          else (case sheetSelectable h (ls_cstate st) (slice raw opNameBeg i) of
                  (True, cs1) \<Rightarrow> compile_loop h root raw (st\<lparr>ls_cstate := cs1, ls_i := i\<rparr>)
                | (False, cs1) \<Rightarrow>
                    (case (if is_conditional (normalizedOperators (slice raw opNameBeg opNameEnd))
                           then (case compile h cs1 (scoped (slice raw (opNameEnd + 1) (i - 1))) False of
                                   (d, cs2) \<Rightarrow> (map_option ArgSelector d, cs2))
                           else if normalizedOperators (slice raw opNameBeg opNameEnd) = '':not''
                           then (case sheetSelectable h cs1 (slice raw (opNameEnd + 1) (i - 1)) of
                                   (True, cs2) \<Rightarrow> (None, cs2)
                                 | (False, cs2) \<Rightarrow>
                                     (case compile h cs2
                                             (scoped (slice raw (opNameEnd + 1) (i - 1))) False of
                                        (d, cs3) \<Rightarrow> (map_option ArgSelector d, cs3)))
                           else compileArgument h cs1
                                  (normalizedOperators (slice raw opNameBeg opNameEnd))
                                  (slice raw (opNameEnd + 1) (i - 1))) of
                       (None, cs2) \<Rightarrow> Return cs2
                     | (Some a, cs2) \<Rightarrow>
                         (case record_task h root raw (st\<lparr>ls_cstate := cs2\<rparr>) opNameBeg
                                 (normalizedOperators (slice raw opNameBeg opNameEnd)) a i of
                            Return cs3 \<Rightarrow> Return cs3
                          | Continue st' \<Rightarrow>
                              if i = length raw then Continue st'
                              else compile_loop h root raw st'))))"
  by pat_completeness auto

termination
  apply (relation "inv_image (less_than <*lex*> less_than)
    (\<lambda>x. case x of
            Inl (h, cs, raw, root) \<Rightarrow> (count_list raw (CHR ''(''), length raw + 1)
          | Inr (h, root, raw, st) \<Rightarrow> (count_list raw (CHR ''(''), length raw - ls_i st))")
  subgoal by (intro wf_inv_image wf_lex_prod wf_less_than)
  subgoal by simp
  subgoal premises p for h root raw st x2 opNameBeg y opNameEnd ya i yb pcnt c
  proof -
    from p(1-5) have "locate raw (ls_i st) = Some (opNameBeg, opNameEnd, i, pcnt, c)" by auto
    from locate_bounds [OF this] show ?thesis by auto
  qed
  subgoal premises p for h root raw st x2 opNameBeg y opNameEnd ya i yb pcnt c
  proof -
    from p(1-5) have "locate raw (ls_i st) = Some (opNameBeg, opNameEnd, i, pcnt, c)" by auto
    from locate_bounds [OF this] count_argument [of opNameEnd raw "i - 1"]
    show ?thesis by (simp add: count_scoped)
  qed
  subgoal premises p for h root raw st x2 opNameBeg y opNameEnd ya i yb pcnt c
  proof -
    from p(1-5) have "locate raw (ls_i st) = Some (opNameBeg, opNameEnd, i, pcnt, c)" by auto
    from locate_bounds [OF this] count_argument [of opNameEnd raw "i - 1"]
    show ?thesis by (simp add: count_scoped)
  qed
  subgoal premises p for h root raw st x2 opNameBeg y opNameEnd ya i yb pcnt c b cs1 a cs2 a' st'
  proof -
    from p(1-5) have "locate raw (ls_i st) = Some (opNameBeg, opNameEnd, i, pcnt, c)" by auto
    from locate_bounds [OF this] record_task_i [OF p(11)] show ?thesis by auto
  qed
  done

subsection \<open>The canonical string\<close>

text \<open>
  How a template literal prints an argument: a number in decimal, a string as it is, an
  array as its items joined by commas, an object as \<^verbatim>\<open>[object Object]\<close>.
\<close>

fun join :: "string \<Rightarrow> string list \<Rightarrow> string" where
  "join sep [] = []"
| "join sep [x] = x"
| "join sep (x # y # xs) = x @ sep @ join sep (y # xs)"

definition arg_string :: "arg \<Rightarrow> string" where
  "arg_string a =
     (case a of
        ArgNumber k \<Rightarrow> string_of_nat k
      | ArgValue (Str s) \<Rightarrow> s
      | ArgValue (Arr xs) \<Rightarrow> join '','' xs
      | _ \<Rightarrow> ''[object Object]'')"

text \<open>
  The value printed for a regular expression: \<^verbatim>\<open>/source/flags\<close> for an array, and for
  a string the raw text that \<^verbatim>\<open>regexToRawValue\<close> remembers for it, or \<^verbatim>\<open>/source/\<close>
  when it remembers none. A missing item or field prints as \<^verbatim>\<open>undefined\<close>.
\<close>

definition item :: "string list \<Rightarrow> nat \<Rightarrow> string" where
  "item xs k = (if k < length xs then xs ! k else ''undefined'')"

definition regex_value :: "(string \<rightharpoonup> string) \<Rightarrow> jsval \<Rightarrow> string" where
  "regex_value m v =
     (case v of
        Arr xs \<Rightarrow> ''/'' @ item xs 0 @ ''/'' @ item xs 1
      | Str s \<Rightarrow> (case m s of Some v \<Rightarrow> v | None \<Rightarrow> ''/'' @ s @ ''/''))"

text \<open>
  \<^verbatim>\<open>decompile(compiled)\<close>, with the map \<^verbatim>\<open>regexToRawValue\<close> it reads. \<^verbatim>\<open>:if\<close> is
  written \<^verbatim>\<open>:has\<close> and \<^verbatim>\<open>:if-not\<close> is written \<^verbatim>\<open>:not\<close>. A task with an operator
  outside the \<^verbatim>\<open>switch\<close> adds nothing.
\<close>

fun decompile :: "(string \<rightharpoonup> string) \<Rightarrow> descriptor \<Rightarrow> string"
and decompile_tasks :: "(string \<rightharpoonup> string) \<Rightarrow> task list \<Rightarrow> string"
and decompile_task :: "(string \<rightharpoonup> string) \<Rightarrow> task \<Rightarrow> string"
and decompile_nested :: "(string \<rightharpoonup> string) \<Rightarrow> arg \<Rightarrow> string"
where
  "decompile m (Descriptor sel tks act r) =
     (if tks = [] then sel else sel @ decompile_tasks m tks)"
| "decompile_tasks m [] = []"
| "decompile_tasks m (t # ts) = decompile_task m t @ decompile_tasks m ts"
| "decompile_task m (Task opr a) =
     (if opr = '':has'' \<or> opr = '':if'' then '':has('' @ decompile_nested m a @ '')''
      else if opr = '':has-text'' then
        '':has-text(''
        @ (case a of
             ArgValue v \<Rightarrow> regex_value m v
           | _ \<Rightarrow> ''/'' @ arg_string a @ ''/'')
        @ '')''
      else if opr = '':matches-css'' \<or> opr = '':matches-css-after''
              \<or> opr = '':matches-css-before'' then
        opr @ ''(''
        @ (case a of
             ArgDeclaration name v \<Rightarrow> name @ '': '' @ regex_value m v
           | _ \<Rightarrow> ''undefined: /undefined/'')
        @ '')''
      else if opr = '':not'' \<or> opr = '':if-not'' then '':not('' @ decompile_nested m a @ '')''
      else if opr = '':spath'' then arg_string a
      else if opr = '':min-text-length'' \<or> opr = '':remove'' \<or> opr = '':style''
              \<or> opr = '':upward'' \<or> opr = '':watch-attr'' \<or> opr = '':xpath''
      then opr @ ''('' @ arg_string a @ '')''
      else [])"
| "decompile_nested m (ArgSelector d) = decompile m d"
| "decompile_nested m (ArgValue v) = ''undefined''"
| "decompile_nested m (ArgDeclaration name v) = ''undefined''"
| "decompile_nested m (ArgNumber k) = ''undefined''"

subsection \<open>The entry point\<close>

text \<open>
  \<^verbatim>\<open>entryPoint(raw)\<close>, the function the engine exports, with its single-entry cache and
  the state of the compiler.
\<close>

record entry_state =
  compiler :: cstate
  lastProceduralSelector :: string
  lastProceduralSelectorCompiled :: "descriptor option"

definition with_raw :: "string \<Rightarrow> descriptor \<Rightarrow> descriptor" where
  "with_raw r d = (case d of Descriptor sel tks act _ \<Rightarrow> Descriptor sel tks act (Some r))"

definition entryPoint :: "host \<Rightarrow> entry_state \<Rightarrow> string \<Rightarrow> descriptor option \<times> entry_state" where
  "entryPoint h es raw =
     (if raw = lastProceduralSelector es then (lastProceduralSelectorCompiled es, es)
      else (case compile h (compiler es) raw True of
              (compiled, cs) \<Rightarrow>
                (let compiled' =
                       map_option (\<lambda>d. with_raw (decompile (regexToRawValue cs) d) d) compiled
                 in (compiled',
                     \<lparr>compiler = cs, lastProceduralSelector = raw,
                      lastProceduralSelectorCompiled = compiled'\<rparr>))))"

text \<open>\<^verbatim>\<open>entryPoint.reset()\<close> clears the map and the cache; the style sheet stays.\<close>

definition reset :: "entry_state \<Rightarrow> entry_state" where
  "reset es =
     \<lparr>compiler = (compiler es)\<lparr>regexToRawValue := Map.empty\<rparr>,
      lastProceduralSelector = [], lastProceduralSelectorCompiled = None\<rparr>"

declare compile.simps [simp del] compile_loop.simps [simp del]

subsection \<open>One turn of the loop\<close>

text \<open>
  \<^verbatim>\<open>compileConditionalSelector\<close>, \<^verbatim>\<open>compileNotSelector\<close> and the other validators, as the
  loop body calls them through \<^verbatim>\<open>compileArgument.get(operator)\<close>.
\<close>

definition validate :: "host \<Rightarrow> cstate \<Rightarrow> string \<Rightarrow> string \<Rightarrow> arg option \<times> cstate" where
  "validate h cs opr s =
     (if is_conditional opr
      then (case compile h cs (scoped s) False of (d, cs') \<Rightarrow> (map_option ArgSelector d, cs'))
      else if opr = '':not''
      then (case sheetSelectable h cs s of
              (True, cs') \<Rightarrow> (None, cs')
            | (False, cs') \<Rightarrow>
                (case compile h cs' (scoped s) False of
                   (d, cs'') \<Rightarrow> (map_option ArgSelector d, cs'')))
      else compileArgument h cs opr s)"

text \<open>
  What one turn of \<^verbatim>\<open>for (;;)\<close> does from a state of the loop: it returns
  \<^verbatim>\<open>undefined\<close> from \<^verbatim>\<open>compile\<close>, leaves the loop by \<^verbatim>\<open>break\<close>, or starts the next
  turn.
\<close>

datatype turn_result = Undefined cstate | Break loop_state | Next loop_state

definition turn :: "host \<Rightarrow> bool \<Rightarrow> string \<Rightarrow> loop_state \<Rightarrow> turn_result" where
  "turn h root raw st =
     (case locate raw (ls_i st) of
        None \<Rightarrow> Break (st\<lparr>ls_i := length raw\<rparr>)
      | Some (opNameBeg, opNameEnd, i, pcnt, c) \<Rightarrow>
          if pcnt \<noteq> 0 \<and> c \<noteq> CHR '')'' then Undefined (ls_cstate st)
          else (case sheetSelectable h (ls_cstate st) (slice raw opNameBeg i) of
                  (True, cs1) \<Rightarrow> Next (st\<lparr>ls_cstate := cs1, ls_i := i\<rparr>)
                | (False, cs1) \<Rightarrow>
                    (case validate h cs1 (normalizedOperators (slice raw opNameBeg opNameEnd))
                            (slice raw (opNameEnd + 1) (i - 1)) of
                       (None, cs2) \<Rightarrow> Undefined cs2
                     | (Some a, cs2) \<Rightarrow>
                         (case record_task h root raw (st\<lparr>ls_cstate := cs2\<rparr>) opNameBeg
                                 (normalizedOperators (slice raw opNameBeg opNameEnd)) a i of
                            Return cs3 \<Rightarrow> Undefined cs3
                          | Continue st' \<Rightarrow>
                              if i = length raw then Break st' else Next st'))))"

text \<open>The states of the loop that the turns reach from a state.\<close>

inductive visits :: "host \<Rightarrow> bool \<Rightarrow> string \<Rightarrow> loop_state \<Rightarrow> loop_state \<Rightarrow> bool"
  for h :: host and root :: bool and raw :: string and st0 :: loop_state
where
  visits_start: "visits h root raw st0 st0"
| visits_next: "visits h root raw st0 st \<Longrightarrow> turn h root raw st = Next st' \<Longrightarrow>
     visits h root raw st0 st'"

definition initial :: "cstate \<Rightarrow> loop_state" where
  "initial cs =
     \<lparr>ls_cstate = cs, ls_tasks = [], ls_prefix = [], ls_i = 0, ls_opPrefixBeg = 0,
      ls_action = None\<rparr>"

lemma compile_loop_turn:
  "compile_loop h root raw st =
     (case turn h root raw st of
        Undefined cs \<Rightarrow> Return cs
      | Break st' \<Rightarrow> Continue st'
      | Next st' \<Rightarrow> compile_loop h root raw st')"
  by (subst compile_loop.simps)
     (auto simp: turn_def validate_def split: option.splits prod.splits bool.splits step.splits)

lemma compile_initial:
  "compile h cs raw root =
     (if raw = [] then (None, cs)
      else (case compile_loop h root raw (initial cs) of
              Return cs' \<Rightarrow> (None, cs')
            | Continue st \<Rightarrow> finish h root raw st))"
  by (simp add: compile.simps initial_def)

lemma visits_loop:
  "visits h root raw st0 st \<Longrightarrow> compile_loop h root raw st0 = compile_loop h root raw st"
proof (induction rule: visits.induct)
  case visits_start
  show ?case by simp
next
  case (visits_next st st')
  from visits_next.hyps(2) have "compile_loop h root raw st = compile_loop h root raw st'"
    by (simp add: compile_loop_turn [of h root raw st])
  with visits_next.IH show ?case by simp
qed

subsection \<open>Where an action may stand\<close>

text \<open>
  A descriptor without any action: no \<^verbatim>\<open>action\<close> field, no task with an action
  operator, and the same for every descriptor nested in its tasks.
\<close>

fun no_action :: "descriptor \<Rightarrow> bool"
and no_action_tasks :: "task list \<Rightarrow> bool"
and no_action_task :: "task \<Rightarrow> bool"
and no_action_arg :: "arg \<Rightarrow> bool"
where
  "no_action (Descriptor sel tks act r) = (act = None \<and> no_action_tasks tks)"
| "no_action_tasks [] = True"
| "no_action_tasks (t # ts) = (no_action_task t \<and> no_action_tasks ts)"
| "no_action_task (Task opr a) = (opr \<notin> set actionOperators \<and> no_action_arg a)"
| "no_action_arg (ArgSelector d) = no_action d"
| "no_action_arg (ArgValue v) = True"
| "no_action_arg (ArgDeclaration name v) = True"
| "no_action_arg (ArgNumber k) = True"



section \<open>Task pipeline\<close>

datatype js_error = SyntaxError | TypeError | OtherError string

text \<open>
  The arguments of \<^verbatim>\<open>new RegExp(arg0, arg1)\<close>: a source, and flags when the task's
  argument was an array.
\<close>

datatype regex_details = Source string | SourceFlags string string

definition regex_of :: "jsval \<Rightarrow> regex_details" where
  "regex_of v =
     (case v of
        Str s \<Rightarrow> Source s
      | Arr [] \<Rightarrow> Source ''(?:)''
      | Arr [s] \<Rightarrow> Source s
      | Arr (s # f # _) \<Rightarrow> SourceFlags s f)"

text \<open>
  The task classes of \<^verbatim>\<open>contentscript.js\<close>. \<^verbatim>\<open>PSelectorIfNotTask\<close> is
  \<^verbatim>\<open>PSelectorIfTask\<close> with \<^verbatim>\<open>target = false\<close>, and the two pseudo-element variants
  of \<^verbatim>\<open>PSelectorMatchesCSSTask\<close> differ in \<^verbatim>\<open>pseudo\<close> only.
\<close>

datatype ptask =
    PSelectorHasTextTask regex_details
  | PSelectorIfTask pselector bool
  | PSelectorMatchesCSSTask string regex_details "string option"
  | PSelectorMinTextLengthTask nat
  | PSelectorPassthru
  | PSelectorSpathTask string bool
  | PSelectorUpwardTask nat string
  | PSelectorWatchAttrs "string list"
  | PSelectorXpathTask string
and pselector =
    PSelector (ps_raw: "string option") (ps_selector: string) (ps_tasks: "ptask list")
      (ps_action: "string option")

text \<open>
  The host document, as the pipeline reads it. \<open>ancestors\<close> is the chain of
  \<^verbatim>\<open>parentElement\<close> from a node upwards (empty when \<^verbatim>\<open>parentElement\<close> is null),
  \<open>previousElementSiblings\<close> the chain of \<^verbatim>\<open>previousElementSibling\<close>. A query with a
  selector the host cannot parse throws. \<^verbatim>\<open>textContent\<close> of the document node is null.
\<close>

record 'n dom =
  document :: 'n
  querySelectorAll :: "'n \<Rightarrow> string \<Rightarrow> js_error + 'n list"
  textContent :: "'n \<Rightarrow> string option"
  ancestors :: "'n \<Rightarrow> 'n list"
  previousElementSiblings :: "'n \<Rightarrow> 'n list"
  closest :: "'n \<Rightarrow> string \<Rightarrow> js_error + 'n option"
  getComputedStyle :: "'n \<Rightarrow> string option \<Rightarrow> js_error + (string \<Rightarrow> string option) option"
  regex_test :: "regex_details \<Rightarrow> string \<Rightarrow> bool"
  xpath_evaluate :: "'n \<Rightarrow> string \<Rightarrow> js_error + ('n \<times> nat) list"
  RegExp_ok :: "regex_details \<Rightarrow> bool"
  createExpression_ok :: "string \<Rightarrow> bool"

text \<open>
  \<^verbatim>\<open>new PSelector(o)\<close>: each task is built by the class that \<^verbatim>\<open>operatorToTaskMap\<close>
  gives for its operator. An operator without a class (\<^verbatim>\<open>:style\<close>) makes \<^verbatim>\<open>new\<close>
  throw a \<^verbatim>\<open>TypeError\<close>; \<^verbatim>\<open>new RegExp\<close> and \<^verbatim>\<open>document.createExpression\<close> throw on
  what the host rejects. \<^verbatim>\<open>PSelectorWatchAttrs\<close> takes an attribute filter from
  a non-empty array and none from anything else. Descriptors reach this constructor from
  the compiler, so for the other operators an argument of a shape the operator's
  validator never returns is left outside (\<open>OtherError\<close>).
\<close>

fun PSelector_new :: "'n dom \<Rightarrow> descriptor \<Rightarrow> js_error + pselector"
and PSelector_tasks :: "'n dom \<Rightarrow> task list \<Rightarrow> js_error + ptask list"
and PSelector_task :: "'n dom \<Rightarrow> task \<Rightarrow> js_error + ptask"
where
  "PSelector_new d (Descriptor sel ts act r) =
     (case PSelector_tasks d ts of
        Inl e \<Rightarrow> Inl e
      | Inr pts \<Rightarrow> Inr (PSelector r sel pts act))"
| "PSelector_tasks d [] = Inr []"
| "PSelector_tasks d (t # ts) =
     (case PSelector_task d t of
        Inl e \<Rightarrow> Inl e
      | Inr pt \<Rightarrow>
          (case PSelector_tasks d ts of
             Inl e \<Rightarrow> Inl e
           | Inr pts \<Rightarrow> Inr (pt # pts)))"
| "PSelector_task d (Task opr a) =
     (if opr = '':has'' \<or> opr = '':if'' \<or> opr = '':if-not'' \<or> opr = '':not'' then
        (case a of
           ArgSelector o' \<Rightarrow>
             (case PSelector_new d o' of
                Inl e \<Rightarrow> Inl e
              | Inr p \<Rightarrow> Inr (PSelectorIfTask p (opr = '':has'' \<or> opr = '':if'')))
         | _ \<Rightarrow> Inl (OtherError ''argument shape''))
      else if opr = '':has-text'' then
        (case a of
           ArgValue v \<Rightarrow>
             if RegExp_ok d (regex_of v) then Inr (PSelectorHasTextTask (regex_of v))
             else Inl SyntaxError
         | _ \<Rightarrow> Inl (OtherError ''argument shape''))
      else if opr = '':matches-css'' \<or> opr = '':matches-css-after''
              \<or> opr = '':matches-css-before'' then
        (case a of
           ArgDeclaration name v \<Rightarrow>
             if RegExp_ok d (regex_of v)
             then Inr (PSelectorMatchesCSSTask name (regex_of v)
                        (if opr = '':matches-css-after'' then Some '':after''
                         else if opr = '':matches-css-before'' then Some '':before''
                         else None))
             else Inl SyntaxError
         | _ \<Rightarrow> Inl (OtherError ''argument shape''))
      else if opr = '':min-text-length'' then
        (case a of
           ArgNumber k \<Rightarrow> Inr (PSelectorMinTextLengthTask k)
         | _ \<Rightarrow> Inl (OtherError ''argument shape''))
      else if opr = '':remove'' then Inr PSelectorPassthru
      else if opr = '':spath'' then
        (case a of
           ArgValue (Str sp) \<Rightarrow>
             if reSpathNth sp then Inr (PSelectorSpathTask sp True)
             else if reNeedScope sp then Inr (PSelectorSpathTask ('':scope '' @ trim sp) False)
             else Inr (PSelectorSpathTask sp False)
         | _ \<Rightarrow> Inl (OtherError ''argument shape''))
      else if opr = '':upward'' \<or> opr = '':nth-ancestor'' then
        (case a of
           ArgNumber k \<Rightarrow> Inr (PSelectorUpwardTask k [])
         | ArgValue (Str s) \<Rightarrow> Inr (PSelectorUpwardTask 0 s)
         | _ \<Rightarrow> Inl (OtherError ''argument shape''))
      else if opr = '':watch-attr'' then
        (case a of
           ArgValue (Arr attrs) \<Rightarrow> Inr (PSelectorWatchAttrs attrs)
         | _ \<Rightarrow> Inr (PSelectorWatchAttrs []))
      else if opr = '':xpath'' then
        (case a of
           ArgValue (Str x) \<Rightarrow>
             if createExpression_ok d x then Inr (PSelectorXpathTask x) else Inl SyntaxError
         | _ \<Rightarrow> Inl (OtherError ''argument shape''))
      else Inl TypeError)"

text \<open>
  The loop of \<^verbatim>\<open>PSelectorUpwardTask.transpose\<close> over the chain of parents:
  \<^verbatim>\<open>node = node.parentElement; if ( node === null ) return; nth -= 1; if ( nth === 0 ) break;\<close>
\<close>

fun upward_loop :: "'n list \<Rightarrow> int \<Rightarrow> 'n option" where
  "upward_loop [] k = None"
| "upward_loop (p # ps) k = (if k - 1 = 0 then Some p else upward_loop ps (k - 1))"

text \<open>\<^verbatim>\<open>prime(input)\<close>: the root is \<^verbatim>\<open>input || document\<close>.\<close>

definition prime :: "'n dom \<Rightarrow> pselector \<Rightarrow> 'n option \<Rightarrow> js_error + 'n list" where
  "prime d p input =
     (let root = (case input of Some r \<Rightarrow> r | None \<Rightarrow> document d)
      in if ps_selector p = [] then Inr [root] else querySelectorAll d root (ps_selector p))"

text \<open>
  \<open>transpose d task node\<close> is the list of nodes that \<^verbatim>\<open>task.transpose(node, output)\<close>
  pushes to \<^verbatim>\<open>output\<close>, or the exception it throws. \<^verbatim>\<open>PSelectorWatchAttrs\<close> also
  registers a mutation observer on the node; that registration does not change what is
  pushed and is not part of the value. \<open>test\<close> is \<^verbatim>\<open>PSelector.test\<close> with its two
  nested loops: \<open>test_nodes\<close> over the primed nodes, \<open>test_tasks\<close> over the tasks;
  \<open>transpose_nodes\<close> is the inner loop \<^verbatim>\<open>for ( let node of nodes ) task.transpose(node, transposed)\<close>.
\<close>

fun transpose :: "'n dom \<Rightarrow> ptask \<Rightarrow> 'n \<Rightarrow> js_error + 'n list"
and test :: "'n dom \<Rightarrow> pselector \<Rightarrow> 'n option \<Rightarrow> js_error + bool"
and test_nodes :: "'n dom \<Rightarrow> ptask list \<Rightarrow> 'n list \<Rightarrow> js_error + bool"
and test_tasks :: "'n dom \<Rightarrow> ptask list \<Rightarrow> 'n list \<Rightarrow> js_error + 'n list"
and transpose_nodes :: "'n dom \<Rightarrow> ptask \<Rightarrow> 'n list \<Rightarrow> js_error + 'n list"
where
  "transpose d (PSelectorHasTextTask needle) node =
     Inr (if regex_test d needle (case textContent d node of None \<Rightarrow> ''null'' | Some t \<Rightarrow> t)
          then [node] else [])"
| "transpose d (PSelectorIfTask p target) node =
     (case test d p (Some node) of
        Inl e \<Rightarrow> Inl e
      | Inr b \<Rightarrow> Inr (if b = target then [node] else []))"
| "transpose d (PSelectorMatchesCSSTask name v pseudo) node =
     (case getComputedStyle d node pseudo of
        Inl e \<Rightarrow> Inl e
      | Inr None \<Rightarrow> Inr []
      | Inr (Some style) \<Rightarrow>
          Inr (if regex_test d v (case style name of None \<Rightarrow> ''undefined'' | Some x \<Rightarrow> x)
               then [node] else []))"
| "transpose d (PSelectorMinTextLengthTask m) node =
     (case textContent d node of
        None \<Rightarrow> Inl TypeError
      | Some t \<Rightarrow> Inr (if length t \<ge> m then [node] else []))"
| "transpose d PSelectorPassthru node = Inr [node]"
| "transpose d (PSelectorSpathTask spath byNth) node =
     (if \<not> byNth then querySelectorAll d node spath
      else (case ancestors d node of
              [] \<Rightarrow> Inr []
            | parent # _ \<Rightarrow>
                querySelectorAll d parent
                  ('':scope > :nth-child(''
                     @ string_of_nat (1 + length (previousElementSiblings d node))
                     @ '')'' @ spath)))"
| "transpose d (PSelectorUpwardTask i s) node =
     (if s \<noteq> [] then
        (case ancestors d node of
           [] \<Rightarrow> Inr []
         | parent # _ \<Rightarrow>
             (case closest d parent s of
                Inl e \<Rightarrow> Inl e
              | Inr None \<Rightarrow> Inr []
              | Inr (Some a) \<Rightarrow> Inr [a]))
      else (case upward_loop (ancestors d node) (int i) of
              None \<Rightarrow> Inr []
            | Some a \<Rightarrow> Inr [a]))"
| "transpose d (PSelectorWatchAttrs attrs) node = Inr [node]"
| "transpose d (PSelectorXpathTask x) node =
     (case xpath_evaluate d node x of
        Inl e \<Rightarrow> Inl e
      | Inr snapshot \<Rightarrow> Inr (map fst (filter (\<lambda>(n, ty). ty = 1) (rev snapshot))))"
| "test d (PSelector r sel tks a) input =
     (case prime d (PSelector r sel tks a) input of
        Inl e \<Rightarrow> Inl e
      | Inr ns \<Rightarrow> test_nodes d tks ns)"
| "test_nodes d tks [] = Inr False"
| "test_nodes d tks (node # ns) =
     (case test_tasks d tks [node] of
        Inl e \<Rightarrow> Inl e
      | Inr output \<Rightarrow> if output \<noteq> [] then Inr True else test_nodes d tks ns)"
| "test_tasks d [] output = Inr output"
| "test_tasks d (task # tks) output =
     (case transpose_nodes d task output of
        Inl e \<Rightarrow> Inl e
      | Inr transposed \<Rightarrow>
          if transposed = [] then Inr transposed else test_tasks d tks transposed)"
| "transpose_nodes d task [] = Inr []"
| "transpose_nodes d task (node # ns) =
     (case transpose d task node of
        Inl e \<Rightarrow> Inl e
      | Inr out1 \<Rightarrow>
          (case transpose_nodes d task ns of
             Inl e \<Rightarrow> Inl e
           | Inr out2 \<Rightarrow> Inr (out1 @ out2)))"

text \<open>
  \<^verbatim>\<open>PSelector.exec\<close>: the working set is threaded through the tasks in order, and the
  loop stops as soon as the set is empty.
\<close>

fun exec_tasks :: "'n dom \<Rightarrow> ptask list \<Rightarrow> 'n list \<Rightarrow> js_error + 'n list" where
  "exec_tasks d [] ns = Inr ns"
| "exec_tasks d (task # tks) ns =
     (if ns = [] then Inr ns
      else (case transpose_nodes d task ns of
              Inl e \<Rightarrow> Inl e
            | Inr transposed \<Rightarrow> exec_tasks d tks transposed))"

definition exec :: "'n dom \<Rightarrow> pselector \<Rightarrow> 'n option \<Rightarrow> js_error + 'n list" where
  "exec d p input =
     (case prime d p input of
        Inl e \<Rightarrow> Inl e
      | Inr ns \<Rightarrow> exec_tasks d (ps_tasks p) ns)"

text \<open>
  The tasks that push the node they are given or nothing: every class but
  \<^verbatim>\<open>PSelectorSpathTask\<close>, \<^verbatim>\<open>PSelectorUpwardTask\<close> and \<^verbatim>\<open>PSelectorXpathTask\<close>.
\<close>

definition is_filter_task :: "ptask \<Rightarrow> bool" where
  "is_filter_task t =
     (case t of
        PSelectorSpathTask _ _ \<Rightarrow> False
      | PSelectorUpwardTask _ _ \<Rightarrow> False
      | PSelectorXpathTask _ \<Rightarrow> False
      | _ \<Rightarrow> True)"

section \<open>Filtering runtime\<close>

text \<open>
  The mutable fields that \<^verbatim>\<open>new PSelector(o)\<close> adds to the selector it builds:
  \<^verbatim>\<open>budget = 200\<close>, \<^verbatim>\<open>cost = 0\<close>, \<^verbatim>\<open>lastAllowanceTime = 0\<close>, and \<^verbatim>\<open>hit\<close>, false on
  the prototype.
\<close>

record psel =
  pselector :: pselector
  budget :: int
  cost :: int
  lastAllowanceTime :: int
  hit :: bool

definition new_psel :: "pselector \<Rightarrow> psel" where
  "new_psel p = \<lparr>pselector = p, budget = 200, cost = 0, lastAllowanceTime = 0, hit = False\<rparr>"

text \<open>
  \<^verbatim>\<open>DOMProceduralFilterer\<close>. The map \<^verbatim>\<open>selectors\<close> is kept in insertion order, as
  \<^verbatim>\<open>Map.prototype.values\<close> iterates it, and so is the set \<^verbatim>\<open>hiddenNodes\<close>.
\<close>

record 'n filterer =
  domIsReady :: bool
  domIsWatched :: bool
  mustApplySelectors :: bool
  selectors :: "(string \<times> psel) list"
  hiddenNodes :: "'n list"

text \<open>
  What a pass needs from the page, over a state \<open>'w\<close> of the page that the model does
  not look into: \<^verbatim>\<open>Date.now()\<close>, the document as the pipeline reads it, the state
  after a selector has been executed (time has passed), and the platform's
  \<^verbatim>\<open>hideNode\<close>, \<^verbatim>\<open>unhideNode\<close> and \<^verbatim>\<open>node.textContent = ''; node.remove()\<close>.
\<close>

record ('w, 'n) page =
  now :: "'w \<Rightarrow> int"
  dom_of :: "'w \<Rightarrow> 'n dom"
  after_exec :: "pselector \<Rightarrow> 'w \<Rightarrow> 'w"
  hideNode :: "'n \<Rightarrow> 'w \<Rightarrow> 'w"
  unhideNode :: "'n \<Rightarrow> 'w \<Rightarrow> 'w"
  removeNode :: "'n \<Rightarrow> 'w \<Rightarrow> 'w"

text \<open>
  What a pass did, in order: a selector was executed, its execution threw, a node was
  handed to \<^verbatim>\<open>hideNode\<close> or \<^verbatim>\<open>unhideNode\<close> or removed, \<^verbatim>\<open>console.info\<close> reported
  a disabled selector.
\<close>

datatype 'n call =
    Executed string
  | Threw string js_error
  | Hidden 'n
  | Unhidden 'n
  | Removed 'n
  | ConsoleInfo "string option"

text \<open>
  The variables of one pass: the page, \<^verbatim>\<open>t0\<close>, the new \<^verbatim>\<open>this.hiddenNodes\<close>, and
  the calls made so far.
\<close>

record ('w, 'n) pass =
  world :: 'w
  t0 :: int
  hidden :: "'n list"
  calls :: "'n call list"

fun hideNodes :: "('w, 'n) page \<Rightarrow> 'n list \<Rightarrow> ('w, 'n) pass \<Rightarrow> ('w, 'n) pass" where
  "hideNodes h [] st = st"
| "hideNodes h (node # ns) st =
     (if ancestors (dom_of h (world st)) node = [] then hideNodes h ns st
      else hideNodes h ns
             (st\<lparr>world := hideNode h node (world st),
                 hidden := (if node \<in> set (hidden st) then hidden st else hidden st @ [node]),
                 calls := calls st @ [Hidden node]\<rparr>))"

fun removeNodes :: "('w, 'n) page \<Rightarrow> 'n list \<Rightarrow> ('w, 'n) pass \<Rightarrow> ('w, 'n) pass" where
  "removeNodes h [] st = st"
| "removeNodes h (node # ns) st =
     removeNodes h ns
       (st\<lparr>world := removeNode h node (world st), calls := calls st @ [Removed node]\<rparr>)"

text \<open>
  The allowance at the head of the loop body of \<^verbatim>\<open>commitNow\<close>:
  \<^verbatim>\<open>Math.floor((t0 - pselector.lastAllowanceTime) / 2000)\<close>, fifty units each, capped
  at 200.
\<close>

definition replenish :: "int \<Rightarrow> psel \<Rightarrow> psel" where
  "replenish t ps =
     (let allowance = (t - lastAllowanceTime ps) div 2000
      in if allowance \<ge> 1
         then (let b = budget ps + allowance * 50
               in ps\<lparr>budget := (if b > 200 then 200 else b), lastAllowanceTime := t\<rparr>)
         else ps)"

text \<open>
  The loop body of \<^verbatim>\<open>commitNow\<close> for one selector: the exception of
  \<^verbatim>\<open>pselector.exec()\<close> if it throws (nothing catches it), otherwise the selector
  and the pass as the body leaves them.
\<close>

definition commit_one ::
  "('w, 'n) page \<Rightarrow> string \<Rightarrow> psel \<Rightarrow> ('w, 'n) pass \<Rightarrow> js_error option \<times> psel \<times> ('w, 'n) pass"
where
  "commit_one h k ps st =
     (let ps1 = replenish (t0 st) ps
      in if budget ps1 \<le> 0 then (None, ps1, st)
         else
           (let w1 = after_exec h (pselector ps1) (world st)
            in case exec (dom_of h (world st)) (pselector ps1) None of
                 Inl e \<Rightarrow>
                   (Some e, ps1, st\<lparr>world := w1, calls := calls st @ [Executed k, Threw k e]\<rparr>)
               | Inr ns \<Rightarrow>
                   (let t1 = now h w1;
                        b = budget ps1 + (t0 st - t1);
                        ps2 = ps1\<lparr>budget := (if b < - 500 then - 0x7FFFFFFF else b)\<rparr>;
                        st1 = st\<lparr>world := w1, t0 := t1,
                                 calls := calls st @ Executed k #
                                   (if b < - 500 then [ConsoleInfo (ps_raw (pselector ps1))] else [])\<rparr>
                    in if ns = [] then (None, ps2, st1)
                       else if ps_action (pselector ps2) = Some ''remove''
                       then (None, ps2\<lparr>hit := True\<rparr>, removeNodes h ns st1)
                       else (None, ps2\<lparr>hit := True\<rparr>, hideNodes h ns st1))))"

fun commit_selectors ::
  "('w, 'n) page \<Rightarrow> (string \<times> psel) list \<Rightarrow> ('w, 'n) pass \<Rightarrow>
   js_error option \<times> (string \<times> psel) list \<times> ('w, 'n) pass"
where
  "commit_selectors h [] st = (None, [], st)"
| "commit_selectors h ((k, ps) # rest) st =
     (case commit_one h k ps st of
        (Some e, ps', st') \<Rightarrow> (Some e, (k, ps') # rest, st')
      | (None, ps', st') \<Rightarrow>
          (case commit_selectors h rest st' of
             (r, rest', st'') \<Rightarrow> (r, (k, ps') # rest', st'')))"

text \<open>\<^verbatim>\<open>for ( let node of toRemove )\<close>, at the end of \<^verbatim>\<open>commitNow\<close>.\<close>

fun unhide_loop :: "('w, 'n) page \<Rightarrow> 'n list \<Rightarrow> ('w, 'n) pass \<Rightarrow> ('w, 'n) pass" where
  "unhide_loop h [] st = st"
| "unhide_loop h (node # ns) st =
     (if node \<in> set (hidden st) then unhide_loop h ns st
      else unhide_loop h ns
             (st\<lparr>world := unhideNode h node (world st), calls := calls st @ [Unhidden node]\<rparr>))"

text \<open>
  \<^verbatim>\<open>commitNow()\<close>: the exception that left it, if any; the page, the filterer and the
  calls made.
\<close>

definition commitNow ::
  "('w, 'n) page \<Rightarrow> 'w \<Rightarrow> 'n filterer \<Rightarrow> js_error option \<times> 'w \<times> 'n filterer \<times> 'n call list"
where
  "commitNow h w f =
     (if selectors f = [] \<or> \<not> domIsReady f then (None, w, f, [])
      else
        (let toRemove = hiddenNodes f;
             st0 = \<lparr>world = w, t0 = now h w, hidden = [], calls = []\<rparr>
         in case commit_selectors h (selectors f) st0 of
              (Some e, sels, st1) \<Rightarrow>
                (Some e, world st1,
                 f\<lparr>mustApplySelectors := False, selectors := sels, hiddenNodes := hidden st1\<rparr>,
                 calls st1)
            | (None, sels, st1) \<Rightarrow>
                (let st2 = unhide_loop h toRemove st1
                 in (None, world st2,
                     f\<lparr>mustApplySelectors := False, selectors := sels, hiddenNodes := hidden st2\<rparr>,
                     calls st2))))"

text \<open>
  A sequence of passes. Between two passes the page is whatever the next element of the
  list says; the filterer is what the previous pass left.
\<close>

fun run_passes :: "('w, 'n) page \<Rightarrow> 'w list \<Rightarrow> 'n filterer \<Rightarrow> 'n filterer \<times> 'n call list" where
  "run_passes h [] f = (f, [])"
| "run_passes h (w # ws) f =
     (case commitNow h w f of
        (e, w', f', cs) \<Rightarrow>
          (case run_passes h ws f' of (f'', cs') \<Rightarrow> (f'', cs @ cs')))"


text \<open>
  A budget that the allowance cannot yet have made positive, for a clock that has not
  passed \<open>B\<close>.
\<close>

definition frozen :: "int \<Rightarrow> psel \<Rightarrow> bool" where
  "frozen B ps = (40 * budget ps \<le> lastAllowanceTime ps - B \<and> lastAllowanceTime ps \<le> B)"

section \<open>Surveyor: pending-chunk queues\<close>

text \<open>
  \<^verbatim>\<open>pendingIdNodes = { nodes: [], added: [] }\<close> in \<^verbatim>\<open>contentscript.js\<close>.
  An entry of \<^verbatim>\<open>pending.added\<close> is whatever was pushed or concatenated there: a real
  array, a \<^verbatim>\<open>NodeList\<close> returned by \<^verbatim>\<open>querySelectorAll\<close>, or (because
  \<^verbatim>\<open>pending.added.concat(added)\<close> flattens its array argument) a single node.
\<close>

datatype 'n added_entry = JSArray "'n list" | NodeList "'n list" | Node 'n

record 'n pending =
  nodes :: "'n list"
  added :: "'n added_entry list"

text \<open>
  What the host shows of a single node when it is read as an array-like object:
  \<open>None\<close> when the node has no \<^verbatim>\<open>length\<close> property, otherwise its indexed items
  (a form element lists its controls).
\<close>

type_synonym 'n array_like = "'n \<Rightarrow> 'n list option"

definition isArray :: "'n added_entry \<Rightarrow> bool" where
  "isArray e = (case e of JSArray _ \<Rightarrow> True | _ \<Rightarrow> False)"

definition entry_length :: "'n array_like \<Rightarrow> 'n added_entry \<Rightarrow> nat option" where
  "entry_length al e =
     (case e of JSArray xs \<Rightarrow> Some (length xs)
      | NodeList xs \<Rightarrow> Some (length xs)
      | Node n \<Rightarrow> map_option length (al n))"

text \<open>\<^verbatim>\<open>Array.prototype.slice.call(added)\<close>, and the identity on a real array.\<close>

definition entry_items :: "'n array_like \<Rightarrow> 'n added_entry \<Rightarrow> 'n list" where
  "entry_items al e =
     (case e of JSArray xs \<Rightarrow> xs
      | NodeList xs \<Rightarrow> xs
      | Node n \<Rightarrow> (case al n of None \<Rightarrow> [] | Some xs \<Rightarrow> xs))"

definition hasChunk :: "'n pending \<Rightarrow> bool" where
  "hasChunk p = (nodes p \<noteq> [] \<or> added p \<noteq> [])"

text \<open>
  \<^verbatim>\<open>addChunk(pending, added)\<close>. The last branch is \<^verbatim>\<open>pending.added.concat(added)\<close>
  with \<^verbatim>\<open>added\<close> a real array: its nodes become entries of their own.
\<close>

definition addChunk :: "'n array_like \<Rightarrow> 'n pending \<Rightarrow> 'n added_entry \<Rightarrow> 'n pending" where
  "addChunk al p a =
     (if entry_length al a = Some 0 then p
      else if \<not> isArray a \<or> added p = [] \<or> \<not> isArray (hd (added p))
              \<or> (case entry_length al (hd (added p)) of Some k \<Rightarrow> k \<ge> 1000 | None \<Rightarrow> False)
      then p\<lparr>added := added p @ [a]\<rparr>
      else p\<lparr>added := added p @ map Node (entry_items al a)\<rparr>)"

text \<open>
  \<^verbatim>\<open>nextChunk(pending)\<close> returns the chunk and leaves the queue updated. The value
  returned is read by the caller through \<^verbatim>\<open>length\<close> and indices, so it is given as
  the list of its items. \<^verbatim>\<open>nodes.splice(1000)\<close> keeps the first 1000 items in
  \<^verbatim>\<open>nodes\<close> and returns the rest; \<^verbatim>\<open>added.splice(0, k)\<close> returns the first
  \<open>k\<close> items and keeps the rest. A comparison with an undefined \<^verbatim>\<open>length\<close> is false.
\<close>

definition nextChunk :: "'n array_like \<Rightarrow> 'n pending \<Rightarrow> 'n list \<times> 'n pending" where
  "nextChunk al p =
     (let a = (if added p \<noteq> [] then hd (added p) else JSArray []);
          rest = (if added p \<noteq> [] then tl (added p) else [])
      in if nodes p = [] then
           (if (case entry_length al a of Some k \<Rightarrow> k \<le> 1000 | None \<Rightarrow> False)
            then (entry_items al a, p\<lparr>added := rest\<rparr>)
            else (let ns = entry_items al a
                  in (take 1000 ns, p\<lparr>nodes := drop 1000 ns, added := rest\<rparr>)))
         else
           (let a' = entry_items al a
            in if length (nodes p) < 1000
               then (nodes p @ take (1000 - length (nodes p)) a',
                     p\<lparr>nodes := drop (1000 - length (nodes p)) a', added := rest\<rparr>)
               else (take 1000 (nodes p),
                     p\<lparr>nodes := drop 1000 (nodes p) @ a', added := rest\<rparr>)))"

section \<open>Collapser\<close>

text \<open>
  An element as the Collapser reads and writes it: its tag, its properties that hold a
  string (\<^verbatim>\<open>target[prop]\<close>), its attributes (\<^verbatim>\<open>getAttribute\<close>), the value and the
  priority of the \<^verbatim>\<open>display\<close> property of its inline style, its \<^verbatim>\<open>hidden\<close>
  property, and its parent in the document tree (none when detached).
\<close>

record 'n element =
  localName :: string
  property :: "string \<Rightarrow> string option"
  getAttribute :: "string \<Rightarrow> string option"
  style_display :: "(string \<times> string) option"
  hidden_property :: bool
  parentNode :: "'n option"

record response =
  response_id :: nat
  response_hash :: "string option"
  blockedResources :: "string list"
  netSelectorCacheCountMax :: "int option"

record 'n collapser =
  toCollapse :: "nat \<rightharpoonup> 'n list"
  cachedBlockedSet :: "string list option"
  cachedBlockedSetHash :: "string option"
  cachedBlockedSetTimer :: bool
  netSelectorCacheCount :: int

definition src1stProps :: "string \<rightharpoonup> string" where
  "src1stProps =
     map_of [(''embed'', ''src''), (''iframe'', ''src''), (''img'', ''src''), (''object'', ''data'')]"

definition src2ndProps :: "string \<rightharpoonup> string" where
  "src2ndProps = map_of [(''img'', ''srcset'')]"

definition tagToTypeMap :: "string \<rightharpoonup> string" where
  "tagToTypeMap =
     map_of [(''embed'', ''object''), (''iframe'', ''sub_frame''), (''img'', ''image''),
             (''object'', ''object'')]"

text \<open>
  The property that names the resource of a target and its value: the first property of
  the tag, or the second when the first holds no non-empty string.
\<close>

definition resource_of :: "'n element \<Rightarrow> (string \<times> string) option" where
  "resource_of el =
     (case src1stProps (localName el) of
        None \<Rightarrow> None
      | Some prop \<Rightarrow>
          (case property el prop of
             Some (c # cs) \<Rightarrow> Some (prop, c # cs)
           | _ \<Rightarrow>
               (case src2ndProps (localName el) of
                  None \<Rightarrow> None
                | Some prop2 \<Rightarrow>
                    (case property el prop2 of
                       Some (c # cs) \<Rightarrow> Some (prop2, c # cs)
                     | _ \<Rightarrow> None))))"

text \<open>
  \<^verbatim>\<open>target.style.setProperty('display', 'none', 'important'); target.hidden = true;\<close>
\<close>

definition hide :: "'n element \<Rightarrow> 'n element" where
  "hide el = el\<lparr>style_display := Some (''none'', ''important''), hidden_property := True\<rparr>"

text \<open>
  The variables of the loop over the targets: the elements of the document, the
  selectors collected, and \<^verbatim>\<open>netSelectorCacheCount\<close>.
\<close>

record 'n collapsing =
  elements :: "'n \<Rightarrow> 'n element"
  net_selectors :: "string list"
  cache_count :: int

text \<open>
  \<^verbatim>\<open>for ( let target of targets )\<close> in \<^verbatim>\<open>onProcessed\<close>. \<open>patch\<close> is
  \<^verbatim>\<open>vAPI.iframeLoadEventPatch\<close>, a function of the platform that may be undefined; it
  is given the target, and what it does to the elements is its own.
\<close>

fun collapse_targets ::
  "('n \<Rightarrow> ('n \<Rightarrow> 'n element) \<Rightarrow> ('n \<Rightarrow> 'n element)) option \<Rightarrow> string list \<Rightarrow> int option \<Rightarrow>
   'n list \<Rightarrow> 'n collapsing \<Rightarrow> 'n collapsing"
where
  "collapse_targets patch blocked cmax [] st = st"
| "collapse_targets patch blocked cmax (target # targets) st =
     (case resource_of (elements st target) of
        None \<Rightarrow> collapse_targets patch blocked cmax targets st
      | Some (prop, src) \<Rightarrow>
          if the (tagToTypeMap (localName (elements st target))) @ '' '' @ src \<notin> set blocked
          then collapse_targets patch blocked cmax targets st
          else
            (let st1 = st\<lparr>elements := (elements st)(target := hide (elements st target))\<rparr>;
                 st2 = (if (case cmax of Some m \<Rightarrow> cache_count st1 \<le> m | None \<Rightarrow> False)
                        then (case getAttribute (elements st1 target) prop of
                                Some (c # cs) \<Rightarrow>
                                  st1\<lparr>net_selectors := net_selectors st1 @
                                        [localName (elements st1 target) @ ''['' @ prop @ ''=''
                                         @ [CHR 0x22] @ (c # cs) @ [CHR 0x22] @ '']''],
                                      cache_count := cache_count st1 + 1\<rparr>
                              | _ \<Rightarrow> st1)
                        else st1);
                 st3 = (case patch of
                          None \<Rightarrow> st2
                        | Some g \<Rightarrow> st2\<lparr>elements := g target (elements st2)\<rparr>)
             in collapse_targets patch blocked cmax targets st3))"

text \<open>
  \<^verbatim>\<open>onProcessed(response)\<close>: the Collapser, the elements of the document, and the
  selectors sent to the background process (none when nothing is sent).
\<close>

definition onProcessed ::
  "('n \<Rightarrow> ('n \<Rightarrow> 'n element) \<Rightarrow> ('n \<Rightarrow> 'n element)) option \<Rightarrow> response option \<Rightarrow>
   'n collapser \<Rightarrow> ('n \<Rightarrow> 'n element) \<Rightarrow> 'n collapser \<times> ('n \<Rightarrow> 'n element) \<times> string list"
where
  "onProcessed patch resp co els =
     (case resp of
        None \<Rightarrow> (co\<lparr>toCollapse := Map.empty\<rparr>, els, [])
      | Some r \<Rightarrow>
          (case toCollapse co (response_id r) of
             None \<Rightarrow> (co, els, [])
           | Some targets \<Rightarrow>
               (let co1 = co\<lparr>toCollapse := (toCollapse co)(response_id r := None)\<rparr>;
                    co2 = (if cachedBlockedSetHash co1 \<noteq> response_hash r
                           then co1\<lparr>cachedBlockedSet := Some (blockedResources r),
                                    cachedBlockedSetHash := response_hash r,
                                    cachedBlockedSetTimer := True\<rparr>
                           else co1)
                in case cachedBlockedSet co2 of
                     None \<Rightarrow> (co2, els, [])
                   | Some [] \<Rightarrow> (co2, els, [])
                   | Some blocked \<Rightarrow>
                       (let st = collapse_targets patch blocked (netSelectorCacheCountMax r) targets
                                   \<lparr>elements = els, net_selectors = [],
                                    cache_count = netSelectorCacheCount co2\<rparr>
                        in (co2\<lparr>netSelectorCacheCount := cache_count st\<rparr>, elements st,
                            net_selectors st)))))"

section \<open>A small page and a few rules\<close>

text \<open>
  A document with root element 1 and its two children: 2, a \<^verbatim>\<open>b\<close> element without
  text, and 3, an \<^verbatim>\<open>i\<close> element with the text \<^verbatim>\<open>x\<close>. Node 0 is the document.
\<close>

definition page1 :: "nat dom" where
  "page1 =
     \<lparr>document = 0,
      querySelectorAll = (\<lambda>n sel.
        if sel = ''b'' then Inr (if n = 0 \<or> n = 1 then [2] else [])
        else if sel = ''i'' then Inr (if n = 0 \<or> n = 1 then [3] else [])
        else Inl SyntaxError),
      textContent = (\<lambda>n. if n = 0 then None else if n = 2 then Some [] else Some ''x''),
      ancestors = (\<lambda>n. if n = 2 \<or> n = 3 then [1] else []),
      previousElementSiblings = (\<lambda>n. if n = 3 then [2] else []),
      closest = (\<lambda>n sel. Inr None),
      getComputedStyle = (\<lambda>n pseudo. if n = 0 then Inl TypeError else Inr (Some (\<lambda>name. None))),
      regex_test = (\<lambda>rx s. False),
      xpath_evaluate = (\<lambda>n x. Inl SyntaxError),
      RegExp_ok = (\<lambda>rx. True),
      createExpression_ok = (\<lambda>x. False)\<rparr>"

definition host1 :: "(int, nat) page" where
  "host1 =
     \<lparr>now = (\<lambda>w. w),
      dom_of = (\<lambda>w. page1),
      after_exec = (\<lambda>p w. w + 701),
      hideNode = (\<lambda>n w. w),
      unhideNode = (\<lambda>n w. w),
      removeNode = (\<lambda>n w. w)\<rparr>"

definition d_if_not_upward :: descriptor where
  "d_if_not_upward =
     Descriptor ''b''
       [Task '':if-not'' (ArgSelector (Descriptor ''i'' [] None None)),
        Task '':upward'' (ArgNumber 1)]
       None (Some ''b:not(i):upward(1)'')"

definition q_i :: pselector where
  "q_i = PSelector None ''i'' [] None"

definition p_if_not_upward :: pselector where
  "p_if_not_upward =
     PSelector (Some ''b:not(i):upward(1)'') ''b''
       [PSelectorIfTask q_i False, PSelectorUpwardTask 1 []] None"

definition p_if_not :: pselector where
  "p_if_not = PSelector (Some ''b:not(i)'') ''b'' [PSelectorIfTask q_i False] None"

definition p_min_text :: pselector where
  "p_min_text = PSelector (Some '':min-text-length(5)'') [] [PSelectorMinTextLengthTask 5] None"

definition f_new :: "pselector list \<Rightarrow> nat list \<Rightarrow> nat filterer" where
  "f_new ps hid =
     \<lparr>domIsReady = True, domIsWatched = True, mustApplySelectors = True,
      selectors = zip [''k1'', ''k2''] (map new_psel ps), hiddenNodes = hid\<rparr>"

definition host_frozen_clock :: "(int, nat) page" where
  "host_frozen_clock = host1\<lparr>now := (\<lambda>w. 1700000000000)\<rparr>"

definition f_disabled :: "nat filterer" where
  "f_disabled =
     \<lparr>domIsReady = True, domIsWatched = True, mustApplySelectors = True,
      selectors = [(''k1'', (new_psel p_if_not)\<lparr>budget := - 0x7FFFFFFF,
                                               lastAllowanceTime := 1700000000000\<rparr>)],
      hiddenNodes = []\<rparr>"

text \<open>
  A host for the compiler whose CSS parser accepts the type selectors (a name made of
  letters) and nothing else, whose regular expression engine accepts everything and
  whose XPath parser accepts nothing; and the state of a compiler that has compiled
  nothing yet.
\<close>

definition host_type_selectors :: host where
  "host_type_selectors =
     \<lparr>has_stylesheet = True,
      insertRule = (\<lambda>t.
        if takeWhile (\<lambda>c. c \<noteq> CHR ''{'') t \<noteq> []
           \<and> list_all is_alpha (takeWhile (\<lambda>c. c \<noteq> CHR ''{'') t)
           \<and> dropWhile (\<lambda>c. c \<noteq> CHR ''{'') t = ''{color:red}''
        then Some (StyleRule 1 ''red'' ''color: red;'') else None),
      new_RegExp = (\<lambda>s. True),
      createExpression = (\<lambda>s. False)\<rparr>"

definition cs0 :: cstate where
  "cs0 = \<lparr>regexToRawValue = Map.empty, cssRules = 0\<rparr>"

definition es0 :: entry_state where
  "es0 = \<lparr>compiler = cs0, lastProceduralSelector = [], lastProceduralSelectorCompiled = None\<rparr>"


text \<open>
  An image whose resource the network filter blocked, waiting under request 1, and the
  response to that request.
\<close>

definition elements1 :: "nat \<Rightarrow> nat element" where
  "elements1 n =
     \<lparr>localName = (if n = 5 then ''img'' else ''div''),
      property = (\<lambda>p. if n = 5 \<and> p = ''src'' then Some ''http://ads.example/x.png'' else None),
      getAttribute = (\<lambda>p. if n = 5 \<and> p = ''src'' then Some ''/x.png'' else None),
      style_display = None,
      hidden_property = False,
      parentNode = (if n = 0 then None else Some 0)\<rparr>"

definition collapser1 :: "nat collapser" where
  "collapser1 =
     \<lparr>toCollapse = [1 \<mapsto> [5]], cachedBlockedSet = None, cachedBlockedSetHash = None,
      cachedBlockedSetTimer = False, netSelectorCacheCount = 0\<rparr>"

definition response1 :: response where
  "response1 =
     \<lparr>response_id = 1, response_hash = Some ''h1'',
      blockedResources = [''image http://ads.example/x.png''],
      netSelectorCacheCountMax = Some 30\<rparr>"

section \<open>Properties of the task pipeline\<close>

lemma transpose_filter:
  "is_filter_task t \<Longrightarrow> transpose d t n = Inr out \<Longrightarrow> set out \<subseteq> {n}"
  by (cases t) (auto simp: is_filter_task_def split: sum.splits option.splits if_splits)

lemma transpose_nodes_filter:
  "is_filter_task t \<Longrightarrow> transpose_nodes d t ns = Inr out \<Longrightarrow> set out \<subseteq> set ns"
proof (induction ns arbitrary: out)
  case Nil
  then show ?case by simp
next
  case (Cons n ns)
  from Cons.prems(2) obtain o1 o2 where
    a: "transpose d t n = Inr o1" and b: "transpose_nodes d t ns = Inr o2" and c: "out = o1 @ o2"
    by (auto split: sum.splits)
  from transpose_filter [OF Cons.prems(1) a] Cons.IH [OF Cons.prems(1) b] c
  show ?case by auto
qed

lemma exec_tasks_filter:
  "\<forall>t \<in> set ts. is_filter_task t \<Longrightarrow> exec_tasks d ts ns = Inr out \<Longrightarrow> set out \<subseteq> set ns"
proof (induction ts arbitrary: ns)
  case Nil
  then show ?case by simp
next
  case (Cons t ts)
  show ?case
  proof (cases "ns = []")
    case True
    with Cons.prems show ?thesis by simp
  next
    case False
    with Cons.prems(2) obtain tr where
      a: "transpose_nodes d t ns = Inr tr" and b: "exec_tasks d ts tr = Inr out"
      by (auto split: sum.splits)
    from Cons.prems(1) have "is_filter_task t" and "\<forall>t \<in> set ts. is_filter_task t" by simp_all
    with transpose_nodes_filter [OF _ a] Cons.IH [OF _ b] show ?thesis by blast
  qed
qed

lemma transpose_nodes_if_not:
  "transpose_nodes d (PSelectorIfTask q False) ns = Inr out \<Longrightarrow> n \<in> set out \<Longrightarrow>
   test d q (Some n) = Inr False"
proof (induction ns arbitrary: out)
  case Nil
  then show ?case by simp
next
  case (Cons m ns)
  from Cons.prems(1) obtain o1 o2 where
    a: "transpose d (PSelectorIfTask q False) m = Inr o1" and
    b: "transpose_nodes d (PSelectorIfTask q False) ns = Inr o2" and c: "out = o1 @ o2"
    by (auto split: sum.splits)
  from Cons.prems(2) c consider "n \<in> set o1" | "n \<in> set o2" by auto
  then show ?case
  proof cases
    case 1
    with a show ?thesis by (auto split: sum.splits if_splits)
  next
    case 2
    with Cons.IH [OF b] show ?thesis .
  qed
qed

lemma exec_tasks_Nil: "exec_tasks d ts [] = Inr []"
  by (cases ts) simp_all

lemma exec_tasks_append:
  "exec_tasks d (pre @ post) ns =
     (case exec_tasks d pre ns of Inl e \<Rightarrow> Inl e | Inr mid \<Rightarrow> exec_tasks d post mid)"
proof (induction pre arbitrary: ns)
  case Nil
  then show ?case by simp
next
  case (Cons t pre)
  then show ?case by (auto simp: exec_tasks_Nil split: sum.splits)
qed

text \<open>
  C5, as amended. When the task list has a \<^verbatim>\<open>:not\<close>/\<^verbatim>\<open>:if-not\<close> task and every task
  after it only keeps or drops the node it is given, no node returned by \<open>exec\<close> is
  one for which the nested selector's \<open>test\<close> succeeds: on each of them \<open>test\<close>
  returns false.
\<close>

theorem exec_respects_trailing_not:
  assumes tasks: "ps_tasks p = pre @ PSelectorIfTask q False # post"
    and post: "\<forall>t \<in> set post. is_filter_task t"
    and run: "exec d p input = Inr out"
    and n: "n \<in> set out"
  shows "test d q (Some n) = Inr False"
proof -
  from run obtain ns where ex: "exec_tasks d (pre @ PSelectorIfTask q False # post) ns = Inr out"
    by (auto simp: exec_def tasks split: sum.splits)
  then obtain mid where mid: "exec_tasks d (PSelectorIfTask q False # post) mid = Inr out"
    by (auto simp: exec_tasks_append split: sum.splits)
  from n mid have "mid \<noteq> []" by auto
  with mid obtain tr where
    tr: "transpose_nodes d (PSelectorIfTask q False) mid = Inr tr" and
    rest: "exec_tasks d post tr = Inr out"
    by (auto split: sum.splits)
  from exec_tasks_filter [OF post rest] n have "n \<in> set tr" by blast
  with transpose_nodes_if_not [OF tr] show ?thesis .
qed

section \<open>Properties of the filtering runtime\<close>


lemma hideNodes_calls:
  "\<exists>new. calls (hideNodes h ns st) = calls st @ new \<and> set new \<subseteq> Hidden ` set ns
     \<and> set (hidden (hideNodes h ns st)) = set (hidden st) \<union> {n. Hidden n \<in> set new}
     \<and> t0 (hideNodes h ns st) = t0 st"
proof (induction ns arbitrary: st)
  case Nil
  then show ?case by simp
next
  case (Cons a ns)
  show ?case
  proof (cases "ancestors (dom_of h (world st)) a = []")
    case True
    with Cons [of st] show ?thesis by auto
  next
    case False
    let ?st = "st\<lparr>world := hideNode h a (world st),
                 hidden := (if a \<in> set (hidden st) then hidden st else hidden st @ [a]),
                 calls := calls st @ [Hidden a]\<rparr>"
    from Cons [of ?st] obtain new where
      n: "calls (hideNodes h ns ?st) = calls ?st @ new" "set new \<subseteq> Hidden ` set ns"
         "set (hidden (hideNodes h ns ?st)) = set (hidden ?st) \<union> {n. Hidden n \<in> set new}"
         "t0 (hideNodes h ns ?st) = t0 ?st"
      by blast
    from False have eq: "hideNodes h (a # ns) st = hideNodes h ns ?st" by simp
    show ?thesis
      apply (rule exI [of _ "Hidden a # new"])
      using n unfolding eq by auto
  qed
qed

lemma removeNodes_calls:
  "\<exists>new. calls (removeNodes h ns st) = calls st @ new \<and> set new \<subseteq> Removed ` set ns
     \<and> hidden (removeNodes h ns st) = hidden st \<and> t0 (removeNodes h ns st) = t0 st"
proof (induction ns arbitrary: st)
  case Nil
  then show ?case by simp
next
  case (Cons a ns)
  let ?st = "st\<lparr>world := removeNode h a (world st), calls := calls st @ [Removed a]\<rparr>"
  from Cons [of ?st] obtain new where
    n: "calls (removeNodes h ns ?st) = calls ?st @ new" "set new \<subseteq> Removed ` set ns"
       "hidden (removeNodes h ns ?st) = hidden ?st" "t0 (removeNodes h ns ?st) = t0 ?st"
    by blast
  show ?case
    apply (rule exI [of _ "Removed a # new"])
    using n by auto
qed

lemma unhide_loop_calls:
  "\<exists>new. calls (unhide_loop h ns st) = calls st @ new
     \<and> set new = Unhidden ` {n \<in> set ns. n \<notin> set (hidden st)}
     \<and> hidden (unhide_loop h ns st) = hidden st"
proof (induction ns arbitrary: st)
  case Nil
  then show ?case by simp
next
  case (Cons a ns)
  show ?case
  proof (cases "a \<in> set (hidden st)")
    case True
    with Cons [of st] show ?thesis by auto
  next
    case False
    let ?st = "st\<lparr>world := unhideNode h a (world st), calls := calls st @ [Unhidden a]\<rparr>"
    from Cons [of ?st] obtain new where
      n: "calls (unhide_loop h ns ?st) = calls ?st @ new"
         "set new = Unhidden ` {n \<in> set ns. n \<notin> set (hidden ?st)}"
         "hidden (unhide_loop h ns ?st) = hidden ?st"
      by blast
    from False have eq: "unhide_loop h (a # ns) st = unhide_loop h ns ?st" by simp
    show ?thesis
      apply (rule exI [of _ "Unhidden a # new"])
      using n False unfolding eq by auto
  qed
qed


lemma commit_one_calls:
  assumes "commit_one h k ps st = (r, ps', st')"
  shows "\<exists>new. calls st' = calls st @ new \<and> (\<forall>n. Unhidden n \<notin> set new)
           \<and> (case r of None \<Rightarrow> (\<forall>k' e. Threw k' e \<notin> set new)
               | Some e \<Rightarrow> new = [Executed k, Threw k e])
           \<and> set (hidden st') = set (hidden st) \<union> {n. Hidden n \<in> set new}
           \<and> (\<forall>k'. Executed k' \<in> set new \<longrightarrow> k' = k)
           \<and> (t0 st' = t0 st \<or> (\<exists>w. t0 st' = now h w))"
proof -
  define ps1 where "ps1 = replenish (t0 st) ps"
  show ?thesis
  proof (cases "budget ps1 \<le> 0")
    case True
    with assms have "r = None" "st' = st"
      by (simp_all add: commit_one_def Let_def ps1_def)
    then show ?thesis by simp
  next
    case pos: False
    show ?thesis
    proof (cases "exec (dom_of h (world st)) (pselector ps1) None")
      case (Inl e)
      with pos assms have "r = Some e"
        "st' = st\<lparr>world := after_exec h (pselector ps1) (world st),
                  calls := calls st @ [Executed k, Threw k e]\<rparr>"
        by (auto simp: commit_one_def Let_def ps1_def)
      then show ?thesis by simp
    next
      case (Inr ns)
      define w1 where "w1 = after_exec h (pselector ps1) (world st)"
      define b where "b = budget ps1 + (t0 st - now h w1)"
      define mid where "mid = Executed k #
          (if b < - 500 then [ConsoleInfo (ps_raw (pselector ps1)) :: 'b call] else [])"
      define st1 where "st1 = st\<lparr>world := w1, t0 := now h w1, calls := calls st @ mid\<rparr>"
      have mid: "\<forall>n. Unhidden n \<notin> set mid" "\<forall>k' e. Threw k' e \<notin> set mid"
        "\<forall>n. Hidden n \<notin> set mid" "\<forall>k'. Executed k' \<in> set mid \<longrightarrow> k' = k"
        by (auto simp: mid_def)
      from pos Inr assms have r: "r = None"
        by (auto simp: commit_one_def Let_def ps1_def split: if_splits)
      from pos Inr assms have st': "st' = (if ns = [] then st1
           else if ps_action (pselector ps1) = Some ''remove'' then removeNodes h ns st1
           else hideNodes h ns st1)"
        by (auto simp: commit_one_def Let_def ps1_def st1_def mid_def b_def w1_def
            split: if_splits)
      consider "st' = st1" | "st' = removeNodes h ns st1" | "st' = hideNodes h ns st1"
        using st' by (auto split: if_splits)
      then show ?thesis
      proof cases
        case 1
        show ?thesis
          apply (rule exI [of _ mid])
          using 1 mid r by (auto simp: st1_def)
      next
        case 2
        from removeNodes_calls [of h ns st1] obtain new where
          n: "calls (removeNodes h ns st1) = calls st1 @ new" "set new \<subseteq> Removed ` set ns"
             "hidden (removeNodes h ns st1) = hidden st1"
             "t0 (removeNodes h ns st1) = t0 st1"
          by blast
        show ?thesis
          apply (rule exI [of _ "mid @ new"])
          using 2 n mid r by (auto simp: st1_def)
      next
        case 3
        from hideNodes_calls [of h ns st1] obtain new where
          n: "calls (hideNodes h ns st1) = calls st1 @ new" "set new \<subseteq> Hidden ` set ns"
             "set (hidden (hideNodes h ns st1)) = set (hidden st1) \<union> {n. Hidden n \<in> set new}"
             "t0 (hideNodes h ns st1) = t0 st1"
          by blast
        show ?thesis
          apply (rule exI [of _ "mid @ new"])
          using 3 n mid r by (auto simp: st1_def)
      qed
    qed
  qed
qed

lemma commit_selectors_calls:
  "commit_selectors h sels st = (r, sels', st') \<Longrightarrow>
   \<exists>new. calls st' = calls st @ new \<and> (\<forall>n. Unhidden n \<notin> set new)
     \<and> (case r of None \<Rightarrow> (\<forall>k e. Threw k e \<notin> set new)
         | Some e \<Rightarrow> (\<exists>pre k. new = pre @ [Executed k, Threw k e]
                          \<and> (\<forall>k' e'. Threw k' e' \<notin> set pre)))
     \<and> set (hidden st') = set (hidden st) \<union> {n. Hidden n \<in> set new}"
proof (induction sels arbitrary: st r sels' st')
  case Nil
  then show ?case by simp
next
  case (Cons a sels)
  obtain k ps where a: "a = (k, ps)" by (cases a)
  obtain r1 ps1 st1 where one: "commit_one h k ps st = (r1, ps1, st1)"
    by (cases "commit_one h k ps st")
  from commit_one_calls [OF one] obtain new1 where
    n1: "calls st1 = calls st @ new1" "\<forall>n. Unhidden n \<notin> set new1"
        "case r1 of None \<Rightarrow> (\<forall>k' e. Threw k' e \<notin> set new1)
           | Some e \<Rightarrow> new1 = [Executed k, Threw k e]"
        "set (hidden st1) = set (hidden st) \<union> {n. Hidden n \<in> set new1}"
    by blast
  show ?case
  proof (cases r1)
    case (Some e)
    with Cons.prems a one have "r = Some e" "st' = st1" by simp_all
    with n1 Some show ?thesis
      apply -
      apply (rule exI [of _ new1])
      apply simp
      done
  next
    case None
    obtain r2 rest2 st2 where two: "commit_selectors h sels st1 = (r2, rest2, st2)"
      by (cases "commit_selectors h sels st1")
    from Cons.prems a one None two have eq: "r = r2" "st' = st2" by simp_all
    from Cons.IH [OF two] obtain new2 where
      n2: "calls st2 = calls st1 @ new2" "\<forall>n. Unhidden n \<notin> set new2"
          "case r2 of None \<Rightarrow> (\<forall>k e. Threw k e \<notin> set new2)
             | Some e \<Rightarrow> (\<exists>pre k. new2 = pre @ [Executed k, Threw k e]
                          \<and> (\<forall>k' e'. Threw k' e' \<notin> set pre))"
          "set (hidden st2) = set (hidden st1) \<union> {n. Hidden n \<in> set new2}"
      by blast
    show ?thesis
    proof (cases r2)
      case None2: None
      show ?thesis
        apply (rule exI [of _ "new1 @ new2"])
        using n1 n2 None None2 eq by auto
    next
      case (Some e)
      with n2(3) obtain pre k' where
        p: "new2 = pre @ [Executed k', Threw k' e]" "\<forall>k' e'. Threw k' e' \<notin> set pre"
        by auto
      from p n1(3) None have
        ex: "\<exists>pre0 k0. new1 @ new2 = pre0 @ [Executed k0, Threw k0 e]
               \<and> (\<forall>k' e'. Threw k' e' \<notin> set pre0)"
        by (intro exI [of _ "new1 @ pre"] exI [of _ k']) auto
      have hid: "set (hidden st') = set (hidden st) \<union> {n. Hidden n \<in> set (new1 @ new2)}"
        using n1(4) n2(4) eq by auto
      show ?thesis
        apply (rule exI [of _ "new1 @ new2"])
        using n1(1,2) n2(1,2) Some eq ex hid by simp
    qed
  qed
qed


text \<open>
  C3, as amended. When the execution of a descriptor throws during a pass, the
  exception leaves \<open>commitNow\<close>: it is the result of the pass, the throw is the last
  thing the pass did (no descriptor after it is executed), and no node is unhidden.
\<close>

theorem commitNow_throw_propagates:
  fixes h :: "('w, 'n) page"
  assumes run: "commitNow h w f = (r, w', f', cs)"
    and thrown: "Threw k e \<in> set cs"
  shows "r = Some e \<and> (\<exists>pre. cs = pre @ [Executed k, Threw k e])
           \<and> (\<forall>n. Unhidden n \<notin> set cs)"
proof -
  from run thrown have guard: "\<not> (selectors f = [] \<or> \<not> domIsReady f)"
    by (auto simp: commitNow_def split: if_splits)
  define st0 where
    "st0 = \<lparr>world = w, t0 = now h w, hidden = ([] :: 'n list), calls = []\<rparr>"
  obtain r1 sels st1 where loop: "commit_selectors h (selectors f) st0 = (r1, sels, st1)"
    by (cases "commit_selectors h (selectors f) st0")
  from commit_selectors_calls [OF loop] have
    c1: "\<forall>n. Unhidden n \<notin> set (calls st1)" and
    c2: "case r1 of None \<Rightarrow> (\<forall>k e. Threw k e \<notin> set (calls st1))
         | Some e \<Rightarrow> (\<exists>pre k. calls st1 = pre @ [Executed k, Threw k e]
                          \<and> (\<forall>k' e'. Threw k' e' \<notin> set pre))"
    by (auto simp: st0_def)
  show ?thesis
  proof (cases r1)
    case None
    from unhide_loop_calls [of h "hiddenNodes f" st1] obtain new where
      u: "calls (unhide_loop h (hiddenNodes f) st1) = calls st1 @ new"
         "set new = Unhidden ` {n \<in> set (hiddenNodes f). n \<notin> set (hidden st1)}"
      by blast
    from run guard loop None have "cs = calls (unhide_loop h (hiddenNodes f) st1)"
      by (auto simp: commitNow_def Let_def st0_def)
    with u c2 None thrown show ?thesis by auto
  next
    case (Some e1)
    from run guard loop Some have cs: "cs = calls st1" and r: "r = Some e1"
      by (auto simp: commitNow_def Let_def st0_def)
    from c2 Some obtain pre k1 where
      p: "calls st1 = pre @ [Executed k1, Threw k1 e1]" "\<forall>k' e'. Threw k' e' \<notin> set pre"
      by auto
    from thrown cs p have "k = k1" "e = e1" by auto
    with p cs r c1 show ?thesis by auto
  qed
qed




lemma frozen_budget: "frozen B ps \<Longrightarrow> budget ps \<le> 0"
  by (simp add: frozen_def)

lemma replenish_frozen:
  assumes "frozen B ps" "t \<le> B"
  shows "frozen B (replenish t ps)"
proof (cases "(t - lastAllowanceTime ps) div 2000 \<ge> 1")
  case False
  with assms show ?thesis by (simp add: replenish_def Let_def)
next
  case True
  define a where "a = (t - lastAllowanceTime ps) div 2000"
  define b where "b = budget ps + a * 50"
  have le: "2000 * a \<le> t - lastAllowanceTime ps"
    unfolding a_def by simp
  from True have eq: "replenish t ps =
      ps\<lparr>budget := (if b > 200 then 200 else b), lastAllowanceTime := t\<rparr>"
    by (simp add: replenish_def Let_def a_def b_def)
  have "(if b > 200 then 200 else b) \<le> b" by simp
  then have "40 * (if b > 200 then 200 else b) \<le> 40 * budget ps + 2000 * a"
    unfolding b_def by linarith
  also from assms(1) le have "\<dots> \<le> t - B" by (simp add: frozen_def)
  finally show ?thesis using assms(2) by (simp add: eq frozen_def)
qed

lemma commit_one_frozen:
  assumes "frozen B ps" "t0 st \<le> B"
  shows "commit_one h k ps st = (None, replenish (t0 st) ps, st)"
  using frozen_budget [OF replenish_frozen [OF assms]]
  by (simp add: commit_one_def Let_def)

lemma commit_one_t0:
  assumes "\<forall>w. now h w \<le> B" "t0 st \<le> B" "commit_one h k ps st = (r, ps', st')"
  shows "t0 st' \<le> B"
  using commit_one_calls [OF assms(3)] assms(1,2) by auto

lemma commit_selectors_frozen:
  assumes clock: "\<forall>w. now h w \<le> B"
  shows "t0 st \<le> B \<Longrightarrow> \<forall>ps. (k, ps) \<in> set sels \<longrightarrow> frozen B ps \<Longrightarrow>
     commit_selectors h sels st = (r, sels', st') \<Longrightarrow>
     (\<forall>ps. (k, ps) \<in> set sels' \<longrightarrow> frozen B ps) \<and> t0 st' \<le> B
       \<and> (Executed k \<in> set (calls st') \<longrightarrow> Executed k \<in> set (calls st))"
proof (induction sels arbitrary: st r sels' st')
  case Nil
  then show ?case by auto
next
  case (Cons a sels)
  obtain k1 ps where a: "a = (k1, ps)" by (cases a)
  obtain r1 ps1 st1 where one: "commit_one h k1 ps st = (r1, ps1, st1)"
    by (cases "commit_one h k1 ps st")
  from commit_one_t0 [OF clock Cons.prems(1) one] have t1: "t0 st1 \<le> B" .
  have rest_fr: "\<forall>ps. (k, ps) \<in> set sels \<longrightarrow> frozen B ps"
    using Cons.prems(2) by simp
  have fr1: "frozen B ps1 \<and> st1 = st \<and> r1 = None" if "k1 = k"
  proof -
    from that Cons.prems(2) a have f: "frozen B ps" by simp
    have "commit_one h k1 ps st = (None, replenish (t0 st) ps, st)"
      by (rule commit_one_frozen [OF f Cons.prems(1)])
    with one have "r1 = None" "ps1 = replenish (t0 st) ps" "st1 = st" by auto
    with replenish_frozen [OF f Cons.prems(1)] show ?thesis by simp
  qed
  from commit_one_calls [OF one] obtain new1 where
    n1: "calls st1 = calls st @ new1" "\<forall>k'. Executed k' \<in> set new1 \<longrightarrow> k' = k1"
    by blast
  have ex1: "Executed k \<in> set (calls st1) \<longrightarrow> Executed k \<in> set (calls st)"
  proof (cases "k1 = k")
    case True
    with fr1 show ?thesis by simp
  next
    case False
    with n1 show ?thesis by auto
  qed
  have head: "\<forall>p. (k, p) \<in> set [(k1, ps1)] \<longrightarrow> frozen B p"
    using fr1 by auto
  show ?case
  proof (cases r1)
    case (Some e)
    with Cons.prems(3) a one have eq: "sels' = (k1, ps1) # sels" "st' = st1" by simp_all
    have "\<forall>p. (k, p) \<in> set sels' \<longrightarrow> frozen B p"
      unfolding eq using head rest_fr by simp
    with t1 ex1 eq show ?thesis by blast
  next
    case None
    obtain r2 rest2 st2 where two: "commit_selectors h sels st1 = (r2, rest2, st2)"
      by (cases "commit_selectors h sels st1")
    from Cons.prems(3) a one None two have eq: "sels' = (k1, ps1) # rest2" "st' = st2"
      by simp_all
    from Cons.IH [OF t1 rest_fr two] have
      ih: "\<forall>ps. (k, ps) \<in> set rest2 \<longrightarrow> frozen B ps" "t0 st2 \<le> B"
        "Executed k \<in> set (calls st2) \<longrightarrow> Executed k \<in> set (calls st1)"
      by blast+
    have "\<forall>p. (k, p) \<in> set sels' \<longrightarrow> frozen B p"
      unfolding eq using head ih(1) by simp
    with ih(2,3) ex1 eq show ?thesis by blast
  qed
qed

lemma commitNow_frozen:
  fixes h :: "('w, 'n) page"
  assumes clock: "\<forall>w. now h w \<le> B"
    and fr: "\<forall>ps. (k, ps) \<in> set (selectors f) \<longrightarrow> frozen B ps"
    and run: "commitNow h w f = (r, w', f', cs)"
  shows "(\<forall>ps. (k, ps) \<in> set (selectors f') \<longrightarrow> frozen B ps) \<and> Executed k \<notin> set cs"
proof (cases "selectors f = [] \<or> \<not> domIsReady f")
  case True
  with run have "f' = f" "cs = []" by (auto simp: commitNow_def)
  with fr show ?thesis by simp
next
  case False
  define st0 where
    "st0 = \<lparr>world = w, t0 = now h w, hidden = ([] :: 'n list), calls = []\<rparr>"
  obtain r1 sels st1 where loop: "commit_selectors h (selectors f) st0 = (r1, sels, st1)"
    by (cases "commit_selectors h (selectors f) st0")
  have "t0 st0 \<le> B" using clock by (simp add: st0_def)
  from commit_selectors_frozen [OF clock this fr loop] have
    a: "\<forall>ps. (k, ps) \<in> set sels \<longrightarrow> frozen B ps" and b: "Executed k \<notin> set (calls st1)"
    by (simp_all add: st0_def)
  from unhide_loop_calls [of h "hiddenNodes f" st1] obtain new where
    u: "calls (unhide_loop h (hiddenNodes f) st1) = calls st1 @ new"
       "set new = Unhidden ` {n \<in> set (hiddenNodes f). n \<notin> set (hidden st1)}"
    by blast
  from u b have b': "Executed k \<notin> set (calls (unhide_loop h (hiddenNodes f) st1))"
    by auto
  show ?thesis
  proof (cases r1)
    case None
    with run False loop have "selectors f' = sels"
      "cs = calls (unhide_loop h (hiddenNodes f) st1)"
      by (auto simp: commitNow_def Let_def st0_def)
    with a b' show ?thesis by simp
  next
    case (Some e)
    with run False loop have "selectors f' = sels" "cs = calls st1"
      by (auto simp: commitNow_def Let_def st0_def)
    with a b show ?thesis by simp
  qed
qed

lemma run_passes_frozen:
  assumes clock: "\<forall>w. now h w \<le> B"
  shows "\<forall>ps. (k, ps) \<in> set (selectors f) \<longrightarrow> frozen B ps \<Longrightarrow>
         Executed k \<notin> set (snd (run_passes h ws f))"
proof (induction ws arbitrary: f)
  case Nil
  then show ?case by simp
next
  case (Cons w ws)
  obtain r w' f' cs where one: "commitNow h w f = (r, w', f', cs)"
    by (cases "commitNow h w f") auto
  from commitNow_frozen [OF clock Cons.prems one] have
    a: "\<forall>ps. (k, ps) \<in> set (selectors f') \<longrightarrow> frozen B ps" and b: "Executed k \<notin> set cs"
    by simp_all
  obtain f'' cs' where rest: "run_passes h ws f' = (f'', cs')"
    by (cases "run_passes h ws f'")
  from Cons.IH [OF a] rest have "Executed k \<notin> set cs'" by simp
  with b one rest show ?case by simp
qed

text \<open>
  C2, as amended. A descriptor whose budget was set to \<open>-0x7FFFFFFF\<close> is not executed
  in any later pass, whatever the passes and the page are, as long as the clock stays
  within \<open>40 * 0x7FFFFFFF\<close> milliseconds of the descriptor's last allowance time.
\<close>

theorem disabled_never_executed_within_horizon:
  assumes entry: "(k, ps) \<in> set (selectors f)"
    and keys: "distinct (map fst (selectors f))"
    and disabled: "budget ps = - 0x7FFFFFFF"
    and clock: "\<forall>w. now h w \<le> lastAllowanceTime ps + 40 * 0x7FFFFFFF"
  shows "Executed k \<notin> set (snd (run_passes h ws f))"
proof -
  have "frozen (lastAllowanceTime ps + 40 * 0x7FFFFFFF) ps"
    using disabled by (simp add: frozen_def)
  moreover have "\<And>ps'. (k, ps') \<in> set (selectors f) \<Longrightarrow> ps' = ps"
    by (rule eq_key_imp_eq_value [OF keys _ entry])
  ultimately have "\<forall>ps'. (k, ps') \<in> set (selectors f) \<longrightarrow>
      frozen (lastAllowanceTime ps + 40 * 0x7FFFFFFF) ps'"
    by blast
  from run_passes_frozen [OF clock this] show ?thesis .
qed

section \<open>The properties on the small page\<close>

lemma c5_new: "PSelector_new page1 d_if_not_upward = Inr p_if_not_upward"
  by (simp add: d_if_not_upward_def p_if_not_upward_def q_i_def)

text \<open>
  C5 as stated fails when a task after the \<^verbatim>\<open>:if-not\<close> task moves to another node:
  \<^verbatim>\<open>b:if-not(i):upward(1)\<close> returns the parent of the \<^verbatim>\<open>b\<close> element, and the nested
  selector \<^verbatim>\<open>i\<close> matches under that parent.
\<close>

theorem exec_returns_node_matching_negated_selector:
  "PSelector_new page1 d_if_not_upward = Inr p_if_not_upward
   \<and> exec page1 p_if_not_upward None = Inr [1]
   \<and> test page1 q_i (Some 1) = Inr True"
  by (simp add: d_if_not_upward_def p_if_not_upward_def q_i_def exec_def prime_def page1_def)

theorem exec_respects_trailing_not_witness:
  "exec page1 p_if_not None = Inr [2] \<and> 2 \<in> set [2::nat]
   \<and> test page1 q_i (Some 2) = Inr False"
proof -
  have t: "ps_tasks p_if_not = [] @ PSelectorIfTask q_i False # []"
    by (simp add: p_if_not_def)
  have f: "\<forall>t \<in> set []. is_filter_task t" by simp
  have e: "exec page1 p_if_not None = Inr [2]"
    by (simp add: p_if_not_def q_i_def exec_def prime_def page1_def)
  have n: "(2::nat) \<in> set [2]" by simp
  from exec_respects_trailing_not [OF t f e n] e n show ?thesis by simp
qed

text \<open>
  C3 as stated fails: \<^verbatim>\<open>:min-text-length(5)\<close> has an empty selector, so its pipeline
  starts from the document node, whose \<^verbatim>\<open>textContent\<close> is null, and reading its
  length throws. The exception is the result of the pass and the second descriptor is
  not executed.
\<close>

theorem throwing_descriptor_aborts_pass:
  "fst (commitNow host1 1700000000000 (f_new [p_min_text, p_if_not] [])) = Some TypeError
   \<and> Executed ''k2'' \<notin> set (snd (snd (snd (commitNow host1 1700000000000 (f_new [p_min_text, p_if_not] [])))))"
  by (simp add: commitNow_def f_new_def new_psel_def commit_one_def replenish_def Let_def
      host1_def page1_def exec_def prime_def p_min_text_def p_if_not_def q_i_def)


lemmas eval_defs = commitNow_def f_new_def new_psel_def commit_one_def replenish_def Let_def
      host1_def page1_def exec_def prime_def p_min_text_def p_if_not_def q_i_def

theorem commitNow_throw_propagates_witness:
  "Threw ''k1'' TypeError \<in> set (snd (snd (snd (commitNow host1 1700000000000 (f_new [p_min_text, p_if_not] [])))))
   \<and> fst (commitNow host1 1700000000000 (f_new [p_min_text, p_if_not] [])) = Some TypeError
   \<and> (\<forall>n. Unhidden n \<notin> set (snd (snd (snd (commitNow host1 1700000000000 (f_new [p_min_text, p_if_not] []))))))"
proof -
  let ?X = "commitNow host1 1700000000000 (f_new [p_min_text, p_if_not] [])"
  have run: "?X = (fst ?X, fst (snd ?X), fst (snd (snd ?X)), snd (snd (snd ?X)))" by simp
  have thrown: "Threw ''k1'' TypeError \<in> set (snd (snd (snd ?X)))"
    by (simp add: eval_defs)
  from commitNow_throw_propagates [OF run thrown] thrown show ?thesis by blast
qed


text \<open>
  C2 as stated fails: a first pass costs 701 ms and disables the descriptor; a pass
  85899346000 ms later grants an allowance of 42949673 * 50, the budget is 3, and the
  descriptor is executed again.
\<close>

theorem disabled_descriptor_runs_again_after_long_pause:
  "map (\<lambda>(k, ps). budget ps) (selectors (fst (run_passes host1 [1700000000000] (f_new [p_if_not] []))))
     = [- 0x7FFFFFFF]
   \<and> Executed ''k1'' \<in> set (snd (run_passes host1 [1785899346000]
         (fst (run_passes host1 [1700000000000] (f_new [p_if_not] [])))))"
  by (simp add: eval_defs)

theorem disabled_never_executed_within_horizon_witness:
  "Executed ''k1'' \<notin> set (snd (run_passes host_frozen_clock [0, 1] f_disabled))"
proof -
  let ?ps = "(new_psel p_if_not)\<lparr>budget := - 0x7FFFFFFF, lastAllowanceTime := 1700000000000\<rparr>"
  have entry: "(''k1'', ?ps) \<in> set (selectors f_disabled)" by (simp add: f_disabled_def)
  have keys: "distinct (map fst (selectors f_disabled))" by (simp add: f_disabled_def)
  have disabled: "budget ?ps = - 0x7FFFFFFF" by simp
  have clock: "\<forall>w. now host_frozen_clock w \<le> lastAllowanceTime ?ps + 40 * 0x7FFFFFFF"
    by (simp add: host_frozen_clock_def)
  from disabled_never_executed_within_horizon [OF entry keys disabled clock]
  show ?thesis .
qed

section \<open>Properties of the compiler\<close>

text \<open>The equations that evaluate the compiler on a given rule.\<close>

lemmas compiler_eval =
  compile.simps compile_loop.simps locate_def advance.simps scan_argument.simps
  reProceduralOperator_def operator_names_def sheetSelectable_def reSimpleSelector_def
  slice_def normalizedOperators_def is_conditional_def scoped_def reNeedScope_def
  compileArgument_def compileText_def compileCSSDeclaration_def compileInteger_def parseInt_def
  compileUpwardArgument_def compileRemoveSelector_def compileSpathExpression_def
  compileStyleProperties_def compileAttrList_def split_def compileXpathExpression_def
  record_task_def finish_def finish_prefix_def actionOperators_def
  reParseRegexLiteral_def reEscapeRegex_def reIsDanglingSelector_def reIsSiblingSelector_def
  reForbiddenStyle_def regex_details_def
  is_digit_def is_alpha_def is_word_def is_space_def line_terminator_def trim_def
  entryPoint_def with_raw_def regex_value_def item_def arg_string_def
  host_type_selectors_def cs0_def es0_def Let_def

lemma split_on_without_separator:
  "\<not> str_includes sep s \<Longrightarrow> split_on sep cur s = [cur @ s]"
proof (induction s arbitrary: cur)
  case Nil
  show ?case by simp
next
  case (Cons c cs)
  from Cons.prems have a: "\<not> prefix sep (c # cs)" and b: "\<not> str_includes sep cs"
    by simp_all
  from a Cons.IH [OF b, of "cur @ [c]"] show ?case by simp
qed

text \<open>
  C10, as amended. The validator of \<^verbatim>\<open>:watch-attr\<close> splits on the five characters
  \<^verbatim>\<open>s*,s*\<close>: an argument that does not hold them comes back whole, as a list of one
  name, or as the empty list when the argument is the empty string; and the validator
  never returns \<^verbatim>\<open>undefined\<close>.
\<close>

theorem compileAttrList_literal_separator:
  "(\<not> str_includes ''s*,s*'' s \<longrightarrow> compileAttrList s = (if s = [] then [] else [s]))
   \<and> fst (compileArgument h cs '':watch-attr'' s) \<noteq> None"
proof -
  have "compileAttrList s = (if s = [] then [] else [s])" if "\<not> str_includes ''s*,s*'' s"
    using split_on_without_separator [OF that, of "[]"]
    by (simp add: compileAttrList_def split_def)
  then show ?thesis by (simp add: compileArgument_def)
qed

theorem compileAttrList_literal_separator_witness:
  "\<not> str_includes ''s*,s*'' ''a,b'' \<and> compileAttrList ''a,b'' = [''a,b'']
   \<and> fst (compileArgument host_type_selectors cs0 '':watch-attr'' ''a,b'') \<noteq> None"
proof -
  have n: "\<not> str_includes ''s*,s*'' ''a,b''" by simp
  from compileAttrList_literal_separator [of "''a,b''" host_type_selectors cs0] n
  show ?thesis by simp
qed

text \<open>
  C10 as stated fails on the empty argument: the empty names are dropped, so the list
  is empty, not the list of the whole argument.
\<close>

theorem compileAttrList_empty_argument:
  "\<not> str_includes ''s*,s*'' [] \<and> compileAttrList [] = []"
  by (simp add: compileAttrList_def split_def)

text \<open>
  C6, as amended. When the loop of \<open>compile\<close> comes to an operator whose search for
  the closing parenthesis ends with a balance counter that is not zero, and the last
  character read is not a closing parenthesis, \<open>compile\<close> returns \<^verbatim>\<open>undefined\<close>.
\<close>

theorem unbalanced_argument_rejected:
  assumes reached: "visits h root raw (initial cs) st"
    and located: "locate raw (ls_i st) = Some (opNameBeg, opNameEnd, i, pcnt, c)"
    and unbalanced: "pcnt \<noteq> 0"
    and last_read: "c \<noteq> CHR '')''"
  shows "fst (compile h cs raw root) = None"
proof -
  from located unbalanced last_read have "turn h root raw st = Undefined (ls_cstate st)"
    by (simp add: turn_def)
  then have "compile_loop h root raw st = Return (ls_cstate st)"
    by (simp add: compile_loop_turn [of h root raw st])
  with visits_loop [OF reached] have "compile_loop h root raw (initial cs) = Return (ls_cstate st)"
    by simp
  then show ?thesis by (simp add: compile_initial)
qed

theorem unbalanced_argument_rejected_witness:
  "locate ''div:has-text((a'' 0 = Some (3, 12, 15, 2, CHR ''a'')
   \<and> fst (compile host_type_selectors cs0 ''div:has-text((a'' True) = None"
proof -
  have v: "visits host_type_selectors True ''div:has-text((a'' (initial cs0) (initial cs0)"
    by (rule visits_start)
  have l: "locate ''div:has-text((a'' (ls_i (initial cs0)) = Some (3, 12, 15, 2, CHR ''a'')"
    by (simp add: initial_def locate_def advance.simps scan_argument.simps
        reProceduralOperator_def operator_names_def)
  from unbalanced_argument_rejected [OF v l] l show ?thesis by (simp add: initial_def)
qed

text \<open>
  C6 as stated fails: in \<^verbatim>\<open>div:has-text((a)\<close> the counter never returns to zero, the
  last character read is a closing parenthesis, and the rule is compiled.
\<close>

theorem unbalanced_argument_accepted_when_last_is_paren:
  "locate ''div:has-text((a)'' 0 = Some (3, 12, 16, 1, CHR '')'')
   \<and> fst (compile host_type_selectors cs0 ''div:has-text((a)'' True) =
       Some (Descriptor ''div''
              [Task '':has-text'' (ArgValue (Str [CHR 0x5C, CHR ''('', CHR ''a'']))] None None)"
  by (simp add: compiler_eval)















section \<open>Properties of the Collapser\<close>

lemma hide_hide: "hide (hide el) = hide el"
  by (simp add: hide_def)

lemma collapse_targets_frame:
  assumes neutral: "\<forall>g t s. patch = Some g \<longrightarrow> g t s = s"
  shows "elements (collapse_targets patch blocked cmax targets st) n = elements st n
         \<or> (n \<in> set targets
             \<and> elements (collapse_targets patch blocked cmax targets st) n = hide (elements st n))"
proof (induction targets arbitrary: st)
  case Nil
  show ?case by simp
next
  case (Cons t ts)
  show ?case
  proof (cases "resource_of (elements st t)")
    case None
    with Cons [of st] show ?thesis by auto
  next
    case (Some ps)
    obtain pname src where ps: "ps = (pname, src)" by (cases ps)
    show ?thesis
    proof (cases "the (tagToTypeMap (localName (elements st t))) @ '' '' @ src \<notin> set blocked")
      case True
      with Some ps Cons [of st] show ?thesis by auto
    next
      case False
      define st1 where "st1 = st\<lparr>elements := (elements st)(t := hide (elements st t))\<rparr>"
      define st2 where "st2 =
         (if (case cmax of Some m \<Rightarrow> cache_count st1 \<le> m | None \<Rightarrow> False)
          then (case getAttribute (elements st1 t) pname of
                  Some (c # cs) \<Rightarrow>
                    st1\<lparr>net_selectors := net_selectors st1 @
                          [localName (elements st1 t) @ ''['' @ pname @ ''=''
                           @ [CHR 0x22] @ (c # cs) @ [CHR 0x22] @ '']''],
                        cache_count := cache_count st1 + 1\<rparr>
                | _ \<Rightarrow> st1)
          else st1)"
      define st3 where "st3 =
         (case patch of None \<Rightarrow> st2 | Some g \<Rightarrow> st2\<lparr>elements := g t (elements st2)\<rparr>)"
      have e2: "elements st2 = elements st1"
        by (auto simp: st2_def split: option.splits list.splits)
      have e3: "elements st3 = elements st1"
        using neutral e2 by (auto simp: st3_def split: option.splits)
      from Some ps False have eq:
        "collapse_targets patch blocked cmax (t # ts) st = collapse_targets patch blocked cmax ts st3"
        unfolding st3_def st2_def st1_def by (simp add: Let_def)
      from Cons [of st3] show ?thesis
        unfolding eq e3 by (cases "n = t") (auto simp: st1_def hide_hide)
    qed
  qed
qed

text \<open>
  C9. Whatever the response, \<open>onProcessed\<close> leaves every element as it was or with
  its hiding state set (\<^verbatim>\<open>display: none !important\<close> and \<^verbatim>\<open>hidden\<close>), and no
  element changes its parent: nothing is detached. The platform's
  \<^verbatim>\<open>iframeLoadEventPatch\<close>, when there is one, is taken not to write to the elements.
\<close>

theorem collapser_only_hides:
  assumes neutral: "\<forall>g t s. patch = Some g \<longrightarrow> g t s = s"
    and run: "onProcessed patch resp co els = (co', els', sent)"
  shows "parentNode (els' n) = parentNode (els n) \<and> (els' n = els n \<or> els' n = hide (els n))"
proof -
  have frame: "elements (collapse_targets patch blocked cmax targets
                  \<lparr>elements = els, net_selectors = [], cache_count = k\<rparr>) n = els n
        \<or> elements (collapse_targets patch blocked cmax targets
                  \<lparr>elements = els, net_selectors = [], cache_count = k\<rparr>) n = hide (els n)"
    for blocked cmax targets k
    using collapse_targets_frame [OF neutral, of blocked cmax targets
        "\<lparr>elements = els, net_selectors = [], cache_count = k\<rparr>" n]
    by auto
  have "els' n = els n \<or> els' n = hide (els n)"
  proof (cases resp)
    case None
    with run show ?thesis by (simp add: onProcessed_def)
  next
    case (Some r)
    show ?thesis
    proof (cases "toCollapse co (response_id r)")
      case None
      with Some run show ?thesis by (simp add: onProcessed_def)
    next
      case (Some targets)
      with \<open>resp = Some r\<close> run frame show ?thesis
        by (auto simp: onProcessed_def Let_def split: option.splits list.splits if_splits)
    qed
  qed
  then show ?thesis by (auto simp: hide_def)
qed


theorem collapser_only_hides_witness:
  "fst (snd (onProcessed None (Some response1) collapser1 elements1)) 5 = hide (elements1 5)
   \<and> parentNode (fst (snd (onProcessed None (Some response1) collapser1 elements1)) 5)
       = parentNode (elements1 5)
   \<and> style_display (fst (snd (onProcessed None (Some response1) collapser1 elements1)) 5)
       = Some (''none'', ''important'')"
proof -
  let ?X = "onProcessed None (Some response1) collapser1 elements1"
  have n: "\<forall>g t s. (None :: (nat \<Rightarrow> (nat \<Rightarrow> nat element) \<Rightarrow> (nat \<Rightarrow> nat element)) option) = Some g
             \<longrightarrow> g t s = s"
    by simp
  have run: "?X = (fst ?X, fst (snd ?X), snd (snd ?X))" by simp
  have h: "fst (snd ?X) 5 = hide (elements1 5)"
    by (simp add: onProcessed_def response1_def collapser1_def elements1_def resource_of_def
        src1stProps_def src2ndProps_def tagToTypeMap_def hide_def Let_def)
  from collapser_only_hides [OF n run, of 5] h show ?thesis by (simp add: hide_def)
qed

section \<open>Properties of the Surveyor queue\<close>

lemma entry_items_length:
  "entry_length al a = Some k \<Longrightarrow> length (entry_items al a) = k"
  by (auto simp: entry_length_def entry_items_def split: added_entry.splits option.splits)

text \<open>
  C8. Whatever the queue holds (any node list, any overflow buffer, entries of any of the
  three shapes), one call of \<open>nextChunk\<close> returns at most 1000 nodes.
\<close>

theorem nextChunk_at_most_1000:
  "length (fst (nextChunk al p)) \<le> 1000"
proof (cases "nodes p = []")
  case True
  show ?thesis
  proof (cases "entry_length al (if added p \<noteq> [] then hd (added p) else JSArray [])")
    case None
    with True show ?thesis by (simp add: nextChunk_def Let_def)
  next
    case (Some k)
    with True entry_items_length [OF Some] show ?thesis
      by (simp add: nextChunk_def Let_def)
  qed
next
  case False
  then show ?thesis by (auto simp: nextChunk_def Let_def)
qed

section \<open>Compiling the canonical string again\<close>

subsection \<open>Probes\<close>





subsection \<open>The scan on a string with a star appended\<close>


















subsection \<open>Loops that record no task\<close>














end
